theory Spec2Isabelle
  imports Complex_Main
begin

section \<open>JavaScript numbers\<close>

text \<open>
  The service is TypeScript; every \<^verbatim>\<open>number\<close> is an IEEE 754 binary64 value: a finite
  double, which is a rational, or negative zero, an infinity or NaN. Every arithmetic
  operator rounds its exact result to the nearest double, ties to the even significand,
  and overflows to an infinity. \<open>Finite 0\<close> is positive zero.
\<close>

datatype number = Finite rat | NegZero | PosInfinity | NegInfinity | NaN

text \<open>Number of binary digits of a positive integer.\<close>

function bit_length :: "int \<Rightarrow> int" where
  "bit_length k = (if k \<le> 0 then 0 else 1 + bit_length (k div 2))"
  by pat_completeness auto
termination
  by (relation "measure nat") auto

declare bit_length.simps [simp del]

text \<open>The exponent \<open>e\<close> with \<open>2 ^ e \<le> x < 2 ^ (e + 1)\<close>, for \<open>x > 0\<close>.\<close>

definition binade :: "rat \<Rightarrow> int" where
  "binade x = (if 1 \<le> x then bit_length \<lfloor>x\<rfloor> - 1
               else - bit_length (\<lceil>1 / x\<rceil> - 1))"

definition round_half_even :: "rat \<Rightarrow> int" where
  "round_half_even m = (let f = \<lfloor>m\<rfloor>; r = m - of_int f in
     if r < 1 / 2 then f else if 1 / 2 < r then f + 1 else if even f then f else f + 1)"

text \<open>
  Rounding to binary64: 53 significant bits, so the spacing of doubles around \<open>x\<close> is
  \<open>2 ^ (binade x - 52)\<close>, and \<open>2 ^ (- 1074)\<close> in the subnormal range.
\<close>

definition to_double :: "rat \<Rightarrow> rat" where
  "to_double x = (if x = 0 then 0 else
     let a = \<bar>x\<bar>; u = power_int 2 (max (binade a) (- 1022) - 52)
     in sgn x * of_int (round_half_even (a / u)) * u)"

text \<open>
  The number for an exact result \<open>x\<close>: the nearest double; an infinity when that is beyond
  the largest finite double; negative zero when a negative \<open>x\<close> rounds to zero.
\<close>

definition number_of :: "rat \<Rightarrow> number" where
  "number_of x = (let y = to_double x in
     if 2 ^ 1024 \<le> \<bar>y\<bar> then (if 0 < x then PosInfinity else NegInfinity)
     else if y = 0 \<and> x < 0 then NegZero
     else Finite y)"

fun finite_value :: "number \<Rightarrow> rat" where
  "finite_value (Finite x) = x"
| "finite_value n = 0"

fun negative :: "number \<Rightarrow> bool" where
  "negative (Finite x) = (x < 0)"
| "negative NegZero = True"
| "negative NegInfinity = True"
| "negative n = False"

fun is_zero :: "number \<Rightarrow> bool" where
  "is_zero (Finite x) = (x = 0)"
| "is_zero NegZero = True"
| "is_zero n = False"

fun is_infinite :: "number \<Rightarrow> bool" where
  "is_infinite PosInfinity = True"
| "is_infinite NegInfinity = True"
| "is_infinite n = False"

definition signed_zero :: "bool \<Rightarrow> number" where
  "signed_zero neg = (if neg then NegZero else Finite 0)"

definition signed_infinity :: "bool \<Rightarrow> number" where
  "signed_infinity neg = (if neg then NegInfinity else PosInfinity)"

text \<open>The operator \<^verbatim>\<open>+\<close> on numbers.\<close>

fun js_add :: "number \<Rightarrow> number \<Rightarrow> number" where
  "js_add NaN b = NaN"
| "js_add a NaN = NaN"
| "js_add PosInfinity NegInfinity = NaN"
| "js_add NegInfinity PosInfinity = NaN"
| "js_add PosInfinity b = PosInfinity"
| "js_add a PosInfinity = PosInfinity"
| "js_add NegInfinity b = NegInfinity"
| "js_add a NegInfinity = NegInfinity"
| "js_add NegZero b = b"
| "js_add a NegZero = a"
| "js_add (Finite x) (Finite y) = number_of (x + y)"

text \<open>The operator \<^verbatim>\<open>/\<close> on numbers; the sign of the result is the product of the signs.\<close>

definition js_div :: "number \<Rightarrow> number \<Rightarrow> number" where
  "js_div a b =
     (if a = NaN \<or> b = NaN then NaN
      else let neg = (negative a \<noteq> negative b) in
        if is_infinite a then (if is_infinite b then NaN else signed_infinity neg)
        else if is_infinite b then signed_zero neg
        else if is_zero b then (if is_zero a then NaN else signed_infinity neg)
        else if is_zero a then signed_zero neg
        else number_of (finite_value a / finite_value b))"

text \<open>The comparison \<^verbatim>\<open>x > 0\<close>.\<close>

fun js_positive :: "number \<Rightarrow> bool" where
  "js_positive (Finite x) = (0 < x)"
| "js_positive PosInfinity = True"
| "js_positive n = False"

text \<open>
  \<^verbatim>\<open>x.toFixed(1)\<close> for a finite \<open>x\<close> below \<open>10 ^ 21\<close> in magnitude: the decimal \<open>n / 10\<close>
  for the integer \<open>n\<close> that makes \<open>n / 10 - x\<close> closest to zero, the larger \<open>n\<close> when two
  are equally close; a negative \<open>x\<close> is formatted as a minus sign followed by the digits of
  \<open>- x\<close>. The value is the number the string denotes.
\<close>

definition toFixed1 :: "rat \<Rightarrow> rat" where
  "toFixed1 x = sgn x * (of_int \<lfloor>\<bar>x\<bar> * 10 + 1 / 2\<rfloor> / 10)"

text \<open>
  \<^verbatim>\<open>Number.parseFloat(x.toFixed(1))\<close>. From \<open>10 ^ 21\<close> on, \<^verbatim>\<open>toFixed\<close> prints the number
  itself in exponent notation, which parses back to it; below, the decimal is read back as
  the nearest double, which is finite, and \<^verbatim>\<open>"-0.0"\<close> as negative zero. Negative zero
  prints as \<^verbatim>\<open>"0.0"\<close>; NaN and the infinities print as their names and parse back to
  themselves.
\<close>

fun parseFloat_toFixed1 :: "number \<Rightarrow> number" where
  "parseFloat_toFixed1 (Finite x) =
     (if 10 ^ 21 \<le> \<bar>x\<bar> then Finite x
      else if toFixed1 x = 0 \<and> x < 0 then NegZero
      else Finite (to_double (toFixed1 x)))"
| "parseFloat_toFixed1 NegZero = Finite 0"
| "parseFloat_toFixed1 n = n"

section \<open>Documents\<close>

type_synonym timestamp = nat

text \<open>The fields of the authentication provider's \<^verbatim>\<open>User\<close> that the service reads.\<close>

record user =
  uid :: string
  displayName :: "string option"

text \<open>\<^verbatim>\<open>interface RoomData\<close>; a field declared with \<^verbatim>\<open>?\<close> is an option.\<close>

record roomData =
  room_id :: "string option"
  title :: string
  rent :: string
  deposit :: string
  description :: string
  images :: "string list"
  location :: string
  amenities :: "string list"
  featured :: "bool option"
  rating :: "number option"
  reviews :: "number option"
  owner :: "string option"
  ownerName :: "string option"
  createdAt :: "timestamp option"
  updatedAt :: "timestamp option"

text \<open>\<^verbatim>\<open>Partial<RoomData>\<close>: every field may be absent.\<close>

record roomPatch =
  p_id :: "string option"
  p_title :: "string option"
  p_rent :: "string option"
  p_deposit :: "string option"
  p_description :: "string option"
  p_images :: "string list option"
  p_location :: "string option"
  p_amenities :: "string list option"
  p_featured :: "bool option"
  p_rating :: "number option"
  p_reviews :: "number option"
  p_owner :: "string option"
  p_ownerName :: "string option"
  p_createdAt :: "timestamp option"
  p_updatedAt :: "timestamp option"

text \<open>The object literal that \<^verbatim>\<open>addReview\<close> writes.\<close>

record review =
  userId :: string
  roomId :: string
  userName :: string
  review_rating :: number
  comment :: string
  review_createdAt :: timestamp
  review_updatedAt :: timestamp

text \<open>The object literal that \<^verbatim>\<open>addFavorite\<close> writes.\<close>

record favorite =
  fav_userId :: string
  fav_roomId :: string
  fav_createdAt :: timestamp

datatype error =
  NotAuthenticated
  | RoomNotFound
  | NotAuthorizedUpdate
  | NotAuthorizedDelete
  | BackendFailure
  | NoDocumentToUpdate

section \<open>The document store\<close>

text \<open>
  The hosted database and the authentication state are the environment of the service.
  A collection is a list of documents with their keys, in the order in which a query
  enumerates them. \<open>outages\<close> is the fate of the coming backend calls, one flag per call
  (\<open>True\<close>: the call is rejected); when the list is used up every call succeeds.
  \<open>serverTime\<close> is the value \<^verbatim>\<open>serverTimestamp()\<close> resolves to at the next write.
\<close>

record store =
  currentUser :: "user option"
  rooms_coll :: "(string \<times> roomData) list"
  reviews_coll :: "(string \<times> review) list"
  favorites_coll :: "(string \<times> favorite) list"
  serverTime :: timestamp
  outages :: "bool list"

type_synonym 'a outcome = "(error + 'a) \<times> store"

definition backend :: "store \<Rightarrow> bool \<times> store" where
  "backend s = (case outages s of [] \<Rightarrow> (True, s)
                | down # rest \<Rightarrow> (\<not> down, s\<lparr>outages := rest\<rparr>))"

text \<open>Writing a document under a key replaces the document of that key or adds one.\<close>

fun upsert :: "string \<Rightarrow> 'd \<Rightarrow> (string \<times> 'd) list \<Rightarrow> (string \<times> 'd) list" where
  "upsert k v [] = [(k, v)]"
| "upsert k v ((k', v') # ds) = (if k' = k then (k, v) # ds else (k', v') # upsert k v ds)"

definition getDoc_rooms :: "string \<Rightarrow> store \<Rightarrow> roomData option outcome" where
  "getDoc_rooms k s = (case backend s of
       (False, s1) \<Rightarrow> (Inl BackendFailure, s1)
     | (True, s1) \<Rightarrow> (Inr (map_of (rooms_coll s1) k), s1))"

text \<open>\<^verbatim>\<open>updateDoc\<close> merges fields into an existing document and fails when there is none.\<close>

definition updateDoc_rooms :: "string \<Rightarrow> (timestamp \<Rightarrow> roomData \<Rightarrow> roomData) \<Rightarrow> store \<Rightarrow> unit outcome" where
  "updateDoc_rooms k f s = (case backend s of
       (False, s1) \<Rightarrow> (Inl BackendFailure, s1)
     | (True, s1) \<Rightarrow>
         (case map_of (rooms_coll s1) k of
            None \<Rightarrow> (Inl NoDocumentToUpdate, s1)
          | Some d \<Rightarrow> (Inr (), s1\<lparr>rooms_coll := upsert k (f (serverTime s1) d) (rooms_coll s1),
                                  serverTime := Suc (serverTime s1)\<rparr>)))"

definition deleteDoc_rooms :: "string \<Rightarrow> store \<Rightarrow> unit outcome" where
  "deleteDoc_rooms k s = (case backend s of
       (False, s1) \<Rightarrow> (Inl BackendFailure, s1)
     | (True, s1) \<Rightarrow> (Inr (), s1\<lparr>rooms_coll := filter (\<lambda>(k', d). k' \<noteq> k) (rooms_coll s1)\<rparr>))"

definition setDoc_reviews :: "string \<Rightarrow> (timestamp \<Rightarrow> review) \<Rightarrow> store \<Rightarrow> unit outcome" where
  "setDoc_reviews k f s = (case backend s of
       (False, s1) \<Rightarrow> (Inl BackendFailure, s1)
     | (True, s1) \<Rightarrow> (Inr (), s1\<lparr>reviews_coll := upsert k (f (serverTime s1)) (reviews_coll s1),
                               serverTime := Suc (serverTime s1)\<rparr>))"

text \<open>\<^verbatim>\<open>getDocs(query(collection(db, "reviews"), where("roomId", "==", rid)))\<close>\<close>

definition room_reviews :: "string \<Rightarrow> store \<Rightarrow> review list" where
  "room_reviews rid s = filter (\<lambda>d. roomId d = rid) (map snd (reviews_coll s))"

definition getDocs_reviews :: "string \<Rightarrow> store \<Rightarrow> review list outcome" where
  "getDocs_reviews rid s = (case backend s of
       (False, s1) \<Rightarrow> (Inl BackendFailure, s1)
     | (True, s1) \<Rightarrow> (Inr (room_reviews rid s1), s1))"

text \<open>\<^verbatim>\<open>getDocs(query(collection(db, "favorites"), where("userId", "==", u)))\<close>\<close>

definition user_favorites :: "string \<Rightarrow> store \<Rightarrow> favorite list" where
  "user_favorites u s = filter (\<lambda>d. fav_userId d = u) (map snd (favorites_coll s))"

definition getDocs_favorites :: "string \<Rightarrow> store \<Rightarrow> favorite list outcome" where
  "getDocs_favorites u s = (case backend s of
       (False, s1) \<Rightarrow> (Inl BackendFailure, s1)
     | (True, s1) \<Rightarrow> (Inr (user_favorites u s1), s1))"

section \<open>The room service\<close>

text \<open>
  Each function of \<^verbatim>\<open>lib/room-service.ts\<close> takes the store and returns its outcome
  with the store it leaves behind. A \<^verbatim>\<open>throw\<close> is an \<open>Inl\<close>; the \<^verbatim>\<open>catch\<close> blocks
  log and rethrow, so they do not appear.
\<close>

text \<open>Spreading a partial room over a document: the fields present replace the old ones.\<close>

definition patched :: "'a option \<Rightarrow> 'a \<Rightarrow> 'a" where
  "patched new old = (case new of None \<Rightarrow> old | Some v \<Rightarrow> v)"

definition patched_opt :: "'a option \<Rightarrow> 'a option \<Rightarrow> 'a option" where
  "patched_opt new old = (case new of None \<Rightarrow> old | Some v \<Rightarrow> Some v)"

definition merge_patch :: "roomPatch \<Rightarrow> roomData \<Rightarrow> roomData" where
  "merge_patch p d =
     \<lparr>room_id = patched_opt (p_id p) (room_id d),
      title = patched (p_title p) (title d),
      rent = patched (p_rent p) (rent d),
      deposit = patched (p_deposit p) (deposit d),
      description = patched (p_description p) (description d),
      images = patched (p_images p) (images d),
      location = patched (p_location p) (location d),
      amenities = patched (p_amenities p) (amenities d),
      featured = patched_opt (p_featured p) (featured d),
      rating = patched_opt (p_rating p) (rating d),
      reviews = patched_opt (p_reviews p) (reviews d),
      owner = patched_opt (p_owner p) (owner d),
      ownerName = patched_opt (p_ownerName p) (ownerName d),
      createdAt = patched_opt (p_createdAt p) (createdAt d),
      updatedAt = patched_opt (p_updatedAt p) (updatedAt d)\<rparr>"

definition updateRoom :: "string \<Rightarrow> roomPatch \<Rightarrow> store \<Rightarrow> roomPatch outcome" where
  "updateRoom k patch s =
     (case currentUser s of
        None \<Rightarrow> (Inl NotAuthenticated, s)
      | Some usr \<Rightarrow>
          (case getDoc_rooms k s of
             (Inl e, s1) \<Rightarrow> (Inl e, s1)
           | (Inr roomSnap, s1) \<Rightarrow>
               (case roomSnap of
                  None \<Rightarrow> (Inl RoomNotFound, s1)
                | Some d \<Rightarrow>
                    if owner d \<noteq> Some (uid usr) then (Inl NotAuthorizedUpdate, s1)
                    else (case updateDoc_rooms k
                                 (\<lambda>t old. (merge_patch patch old)\<lparr>updatedAt := Some t\<rparr>) s1 of
                            (Inl e, s2) \<Rightarrow> (Inl e, s2)
                          | (Inr _, s2) \<Rightarrow>
                              (Inr (patch\<lparr>p_id := patched_opt (p_id patch) (Some k)\<rparr>), s2)))))"

definition deleteRoom :: "string \<Rightarrow> store \<Rightarrow> unit outcome" where
  "deleteRoom k s =
     (case currentUser s of
        None \<Rightarrow> (Inl NotAuthenticated, s)
      | Some usr \<Rightarrow>
          (case getDoc_rooms k s of
             (Inl e, s1) \<Rightarrow> (Inl e, s1)
           | (Inr roomSnap, s1) \<Rightarrow>
               (case roomSnap of
                  None \<Rightarrow> (Inl RoomNotFound, s1)
                | Some d \<Rightarrow>
                    if owner d \<noteq> Some (uid usr) then (Inl NotAuthorizedDelete, s1)
                    else deleteDoc_rooms k s1)))"

definition getRoomById :: "string \<Rightarrow> store \<Rightarrow> roomData outcome" where
  "getRoomById k s =
     (case getDoc_rooms k s of
        (Inl e, s1) \<Rightarrow> (Inl e, s1)
      | (Inr roomSnap, s1) \<Rightarrow>
          (case roomSnap of
             None \<Rightarrow> (Inl RoomNotFound, s1)
           | Some d \<Rightarrow> (Inr (d\<lparr>room_id := patched_opt (room_id d) (Some k)\<rparr>), s1)))"

text \<open>
  The loop of \<^verbatim>\<open>getFavorites\<close> over the favourite ids: a room that cannot be fetched is
  logged and skipped.
\<close>

fun favorite_rooms :: "roomData list \<Rightarrow> string list \<Rightarrow> store \<Rightarrow> roomData list \<times> store" where
  "favorite_rooms rooms [] s = (rooms, s)"
| "favorite_rooms rooms (k # ks) s =
     (case getRoomById k s of
        (Inl e, s1) \<Rightarrow> favorite_rooms rooms ks s1
      | (Inr room, s1) \<Rightarrow> favorite_rooms (rooms @ [room]) ks s1)"

definition getFavorites :: "store \<Rightarrow> roomData list outcome" where
  "getFavorites s =
     (case currentUser s of
        None \<Rightarrow> (Inl NotAuthenticated, s)
      | Some usr \<Rightarrow>
          (case getDocs_favorites (uid usr) s of
             (Inl e, s1) \<Rightarrow> (Inl e, s1)
           | (Inr querySnapshot, s1) \<Rightarrow>
               (let favoriteIds = map fav_roomId querySnapshot;
                    (rooms, s2) = favorite_rooms [] favoriteIds s1
                in (Inr rooms, s2))))"

text \<open>The \<^verbatim>\<open>forEach\<close> of \<^verbatim>\<open>updateRoomRating\<close>: \<open>(totalRating, reviewCount)\<close>.\<close>

definition tally :: "review list \<Rightarrow> number \<times> number" where
  "tally querySnapshot =
     foldl (\<lambda>(totalRating, reviewCount) d.
              (js_add totalRating (review_rating d), js_add reviewCount (Finite 1)))
       (Finite 0, Finite 0) querySnapshot"

definition averageRating :: "review list \<Rightarrow> number" where
  "averageRating querySnapshot =
     (let (totalRating, reviewCount) = tally querySnapshot
      in if js_positive reviewCount then js_div totalRating reviewCount else Finite 0)"

definition updateRoomRating :: "string \<Rightarrow> store \<Rightarrow> unit outcome" where
  "updateRoomRating rid s =
     (case getDocs_reviews rid s of
        (Inl e, s1) \<Rightarrow> (Inl e, s1)
      | (Inr querySnapshot, s1) \<Rightarrow>
          updateDoc_rooms rid
            (\<lambda>t old. old\<lparr>rating := Some (parseFloat_toFixed1 (averageRating querySnapshot)),
                          reviews := Some (snd (tally querySnapshot)),
                          updatedAt := Some t\<rparr>) s1)"

text \<open>\<^verbatim>\<open>user.displayName || "Anonymous"\<close>: null and the empty string are falsy.\<close>

definition userName_of :: "user \<Rightarrow> string" where
  "userName_of usr = (case displayName usr of
       None \<Rightarrow> ''Anonymous''
     | Some n \<Rightarrow> if n = [] then ''Anonymous'' else n)"

text \<open>The composite key \<^verbatim>\<open>`${user.uid}_${roomId}`\<close>.\<close>

definition review_key :: "string \<Rightarrow> string \<Rightarrow> string" where
  "review_key u rid = u @ ''_'' @ rid"

definition addReview :: "string \<Rightarrow> number \<Rightarrow> string \<Rightarrow> store \<Rightarrow> unit outcome" where
  "addReview rid rtg cmt s =
     (case currentUser s of
        None \<Rightarrow> (Inl NotAuthenticated, s)
      | Some usr \<Rightarrow>
          (case setDoc_reviews (review_key (uid usr) rid)
                  (\<lambda>t. \<lparr>userId = uid usr, roomId = rid, userName = userName_of usr,
                        review_rating = rtg, comment = cmt,
                        review_createdAt = t, review_updatedAt = t\<rparr>) s of
             (Inl e, s1) \<Rightarrow> (Inl e, s1)
           | (Inr _, s1) \<Rightarrow> updateRoomRating rid s1))"

section \<open>Scenarios and the specification's reading\<close>

text \<open>
  A sequence of submissions: each reviewer signs in and calls \<^verbatim>\<open>addReview\<close>; the run
  stops at the first call that fails.
\<close>

fun submit_reviews :: "string \<Rightarrow> (user \<times> number \<times> string) list \<Rightarrow> store \<Rightarrow> unit outcome" where
  "submit_reviews rid [] s = (Inr (), s)"
| "submit_reviews rid ((usr, rtg, cmt) # rest) s =
     (case addReview rid rtg cmt (s\<lparr>currentUser := Some usr\<rparr>) of
        (Inl e, s1) \<Rightarrow> (Inl e, s1)
      | (Inr _, s1) \<Rightarrow> submit_reviews rid rest s1)"

text \<open>The next \<open>n\<close> backend calls succeed.\<close>

definition reachable :: "nat \<Rightarrow> store \<Rightarrow> bool" where
  "reachable n s = (True \<notin> set (take n (outages s)))"

text \<open>The summary fields of a room document: \<open>(rating, reviews)\<close>.\<close>

definition summary :: "string \<Rightarrow> store \<Rightarrow> (number option \<times> number option) option" where
  "summary rid s = map_option (\<lambda>d. (rating d, reviews d)) (map_of (rooms_coll s) rid)"

text \<open>
  The specification's rounding, in exact arithmetic: to one decimal place, a value halfway
  between two tenths going to the larger one.
\<close>

definition round_half_up1 :: "rat \<Rightarrow> rat" where
  "round_half_up1 q = of_int \<lfloor>q * 10 + 1 / 2\<rfloor> / 10"

definition mean :: "rat list \<Rightarrow> rat" where
  "mean rs = sum_list rs / of_nat (length rs)"

text \<open>Halfway between two adjacent tenths.\<close>

definition tie :: "rat \<Rightarrow> bool" where
  "tie q = (q * 10 + 1 / 2 = of_int \<lfloor>q * 10 + 1 / 2\<rfloor>)"

definition whole :: "rat \<Rightarrow> bool" where
  "whole r = (r = of_int \<lfloor>r\<rfloor>)"

text \<open>A rating that is a whole number and not negative, and the ratings of documents as rationals.\<close>

fun whole_rating :: "number \<Rightarrow> bool" where
  "whole_rating (Finite r) = (whole r \<and> 0 \<le> r)"
| "whole_rating n = False"

definition rating_values :: "review list \<Rightarrow> rat list" where
  "rating_values docs = map (\<lambda>d. finite_value (review_rating d)) docs"

text \<open>
  The fate of each room lookup of \<^verbatim>\<open>getFavorites\<close>, given the outages that follow the
  favourites query: each lookup uses up one flag.
\<close>

fun lookups :: "bool list \<Rightarrow> 'a list \<Rightarrow> ('a \<times> bool) list" where
  "lookups fates [] = []"
| "lookups [] (k # ks) = (k, False) # lookups [] ks"
| "lookups (down # fates) (k # ks) = (k, down) # lookups fates ks"

text \<open>The room that \<^verbatim>\<open>getRoomById\<close> returns for a favourite, if it exists.\<close>

definition room_of :: "store \<Rightarrow> string \<Rightarrow> roomData list" where
  "room_of s k = (case map_of (rooms_coll s) k of
       None \<Rightarrow> []
     | Some d \<Rightarrow> [d\<lparr>room_id := patched_opt (room_id d) (Some k)\<rparr>])"

section \<open>Concrete stores\<close>

definition loft :: roomData where
  "loft = \<lparr>room_id = None, title = ''Loft'', rent = ''900'', deposit = ''1800'',
     description = ''Two rooms'', images = [], location = ''Pune'', amenities = [''wifi''],
     featured = None, rating = None, reviews = None, owner = Some ''owner1'',
     ownerName = Some ''Asha'', createdAt = Some 0, updatedAt = Some 0\<rparr>"

definition ravi :: user where
  "ravi = \<lparr>uid = ''ravi'', displayName = None\<rparr>"

text \<open>One room, no reviews, nobody signed in, the backend up.\<close>

definition store0 :: store where
  "store0 = \<lparr>currentUser = None, rooms_coll = [(''room1'', loft)], reviews_coll = [],
     favorites_coll = [], serverTime = 1, outages = []\<rparr>"

definition reviewer :: "string \<Rightarrow> number \<Rightarrow> user \<times> number \<times> string" where
  "reviewer u r = (\<lparr>uid = u, displayName = None\<rparr>, r, ''ok'')"

definition review_by :: "string \<Rightarrow> number \<Rightarrow> string \<times> review" where
  "review_by u r = (review_key u ''room1'',
     \<lparr>userId = u, roomId = ''room1'', userName = ''Anonymous'', review_rating = r,
      comment = ''ok'', review_createdAt = 1, review_updatedAt = 1\<rparr>)"

text \<open>Twenty reviewers: seventeen rate 1 and three rate 2, so the mean is 23/20 = 1.15.\<close>

definition twenty :: "(user \<times> number \<times> string) list" where
  "twenty = map (\<lambda>u. reviewer u (Finite 1))
       [''a01'', ''a02'', ''a03'', ''a04'', ''a05'', ''a06'', ''a07'', ''a08'', ''a09'',
        ''a10'', ''a11'', ''a12'', ''a13'', ''a14'', ''a15'', ''a16'', ''a17'']
     @ map (\<lambda>u. reviewer u (Finite 2)) [''b01'', ''b02'', ''b03'']"

text \<open>Twenty stored reviews: eleven of 1 and nine of 2, so the mean is 29/20 = 1.45.\<close>

definition store20 :: store where
  "store20 = store0\<lparr>reviews_coll :=
     map (\<lambda>u. review_by u (Finite 1))
       [''a01'', ''a02'', ''a03'', ''a04'', ''a05'', ''a06'', ''a07'', ''a08'', ''a09'',
        ''a10'', ''a11'']
     @ map (\<lambda>u. review_by u (Finite 2))
       [''b01'', ''b02'', ''b03'', ''b04'', ''b05'', ''b06'', ''b07'', ''b08'', ''b09'']\<rparr>"

text \<open>Ravi's favourites: the loft, a room that is gone, and the loft's neighbour.\<close>

definition favorite_of :: "string \<Rightarrow> string \<Rightarrow> string \<times> favorite" where
  "favorite_of u rid = (u @ ''_'' @ rid, \<lparr>fav_userId = u, fav_roomId = rid, fav_createdAt = 1\<rparr>)"

definition store_fav :: store where
  "store_fav = store0\<lparr>currentUser := Some ravi,
     rooms_coll := [(''room1'', loft), (''room2'', loft\<lparr>title := ''Annex''\<rparr>)],
     favorites_coll := [favorite_of ''ravi'' ''room1'', favorite_of ''ravi'' ''gone'',
                        favorite_of ''asha'' ''room1'', favorite_of ''ravi'' ''room2'']\<rparr>"

text \<open>A partial room that only carries a new title.\<close>

definition retitle :: roomPatch where
  "retitle = \<lparr>p_id = None, p_title = Some ''Studio'', p_rent = None, p_deposit = None,
     p_description = None, p_images = None, p_location = None, p_amenities = None,
     p_featured = None, p_rating = None, p_reviews = None, p_owner = None,
     p_ownerName = None, p_createdAt = None, p_updatedAt = None\<rparr>"

text \<open>Two stored reviews, 5 and 4.\<close>

definition store2 :: store where
  "store2 = store0\<lparr>reviews_coll := [review_by ''a'' (Finite 5), review_by ''b'' (Finite 4)]\<rparr>"

section \<open>Facts about binary64 rounding\<close>

lemma bit_length_nonpos: "k \<le> 0 \<Longrightarrow> bit_length k = 0"
  by (simp add: bit_length.simps)

lemma bit_length_pos: "0 < k \<Longrightarrow> bit_length k = 1 + bit_length (k div 2)"
  by (subst bit_length.simps) simp

lemma bit_length_bounds:
  "0 < k \<Longrightarrow> 1 \<le> bit_length k \<and> 2 ^ nat (bit_length k - 1) \<le> k \<and> k < 2 ^ nat (bit_length k)"
proof (induction k rule: bit_length.induct)
  case (1 k)
  show ?case
  proof (cases "k = 1")
    case True
    then show ?thesis by (simp add: bit_length_pos bit_length_nonpos)
  next
    case False
    with "1.prems" have h: "0 < k div 2" by simp
    define b where "b = bit_length (k div 2)"
    from "1.IH" "1.prems" h have ih: "1 \<le> b" "2 ^ nat (b - 1) \<le> k div 2" "k div 2 < 2 ^ nat b"
      by (simp_all add: b_def)
    have bl: "bit_length k = 1 + b" using "1.prems" by (simp add: bit_length_pos b_def)
    have e1: "nat (1 + b - 1) = Suc (nat (b - 1))" using ih(1) by simp
    have e2: "nat (1 + b) = Suc (nat b)" using ih(1) by simp
    have "2 * (k div 2) \<le> k" by simp
    with ih(2) have lo: "2 ^ nat (1 + b - 1) \<le> k" unfolding e1 by simp
    have "k < 2 * (k div 2 + 1)" by simp
    with ih(3) have hi: "k < 2 ^ nat (1 + b)" unfolding e2 by simp
    show ?thesis using ih(1) lo hi by (simp add: bl)
  qed
qed

lemma bit_length_power_int:
  assumes "0 < k"
  shows "power_int (2::rat) (bit_length k - 1) \<le> of_int k"
    and "of_int k < power_int (2::rat) (bit_length k)"
proof -
  from bit_length_bounds [OF assms]
  have b: "1 \<le> bit_length k" "2 ^ nat (bit_length k - 1) \<le> k" "k < 2 ^ nat (bit_length k)"
    by simp_all
  have "(of_int (2 ^ nat (bit_length k - 1)) :: rat) \<le> of_int k"
    using b(2) by (rule of_int_le_iff [THEN iffD2])
  then show "power_int (2::rat) (bit_length k - 1) \<le> of_int k"
    using b(1) by (simp add: power_int_def)
  have "(of_int k :: rat) < of_int (2 ^ nat (bit_length k))"
    using b(3) by (rule of_int_less_iff [THEN iffD2])
  then show "of_int k < power_int (2::rat) (bit_length k)"
    using b(1) by (simp add: power_int_def)
qed

lemma bit_length_succ_le:
  assumes "0 < k"
  shows "of_int k + 1 \<le> power_int (2::rat) (bit_length k)"
proof -
  from bit_length_bounds [OF assms]
  have b: "1 \<le> bit_length k" "k < 2 ^ nat (bit_length k)" by simp_all
  from b(2) have "k + 1 \<le> 2 ^ nat (bit_length k)" by simp
  then have "(of_int (k + 1) :: rat) \<le> of_int (2 ^ nat (bit_length k))"
    by (rule of_int_le_iff [THEN iffD2])
  then show ?thesis using b(1) by (simp add: power_int_def)
qed

lemma binade_bounds:
  assumes "0 < x"
  shows "power_int 2 (binade x) \<le> x" and "x < power_int 2 (binade x + 1)"
proof -
  have "power_int 2 (binade x) \<le> x \<and> x < power_int 2 (binade x + 1)"
  proof (cases "1 \<le> x")
    case True
    define k where "k = \<lfloor>x\<rfloor>"
    have kpos: "0 < k" using True by (simp add: k_def)
    have e: "binade x = bit_length k - 1" using True by (simp add: binade_def k_def)
    have "power_int (2::rat) (bit_length k - 1) \<le> of_int k"
      using kpos by (rule bit_length_power_int)
    also have "of_int k \<le> x" by (simp add: k_def)
    finally have lo: "power_int 2 (binade x) \<le> x" by (simp add: e)
    have "x < of_int k + 1" unfolding k_def by linarith
    also have "\<dots> \<le> power_int 2 (bit_length k)" using kpos by (rule bit_length_succ_le)
    finally have hi: "x < power_int 2 (binade x + 1)" by (simp add: e)
    show ?thesis using lo hi by simp
  next
    case False
    define y where "y = 1 / x"
    define j where "j = \<lceil>y\<rceil> - 1"
    define b where "b = bit_length j"
    have y1: "1 < y" using False assms by (simp add: y_def)
    have jpos: "0 < j" using y1 by (simp add: j_def less_ceiling_iff)
    have e: "binade x = - b" using False by (simp add: binade_def b_def j_def y_def)
    have jy: "of_int j < y" by (simp add: j_def) linarith
    have yj: "y \<le> of_int j + 1" by (simp add: j_def)
    have "power_int (2::rat) (b - 1) \<le> of_int j"
      unfolding b_def using jpos by (rule bit_length_power_int)
    with jy have l1: "power_int (2::rat) (b - 1) < y" by simp
    have "of_int j + 1 \<le> power_int (2::rat) b"
      unfolding b_def using jpos by (rule bit_length_succ_le)
    with yj have l2: "y \<le> power_int (2::rat) b" by simp
    have xy: "x = 1 / y" using assms by (simp add: y_def)
    have pb: "0 < power_int (2::rat) b" "0 < power_int (2::rat) (b - 1)" by simp_all
    have lo: "power_int 2 (- b) \<le> x"
      unfolding xy power_int_minus using l2 y1 pb(1) by (simp add: field_simps)
    have "- b + 1 = - (b - 1)" by simp
    then have hi: "x < power_int 2 (- b + 1)"
      unfolding xy using l1 y1 pb(2) by (simp only: power_int_minus) (simp add: field_simps)
    show ?thesis using lo hi by (simp add: e)
  qed
  then show "power_int 2 (binade x) \<le> x" and "x < power_int 2 (binade x + 1)" by simp_all
qed

lemma round_half_even_of_int: "round_half_even (of_int j) = j"
  by (simp add: round_half_even_def)

lemma round_half_even_error: "\<bar>of_int (round_half_even m) - m\<bar> \<le> 1 / 2"
proof -
  have "of_int \<lfloor>m\<rfloor> \<le> m" "m < of_int \<lfloor>m\<rfloor> + 1" by simp_all linarith
  then show ?thesis by (auto simp: round_half_even_def Let_def)
qed

lemma to_double_minus: "to_double (- x) = - to_double x"
  by (simp add: to_double_def Let_def)

lemma pow2_le_D:
  assumes "power_int (2::rat) a \<le> power_int 2 b"
  shows "a \<le> b"
proof (rule ccontr)
  assume "\<not> a \<le> b"
  then have "b < a" by simp
  then have "power_int (2::rat) b < power_int 2 a" by (rule power_int_strict_increasing) simp
  with assms show False by simp
qed

lemma pow2_less_D:
  assumes "power_int (2::rat) a < power_int 2 b"
  shows "a < b"
proof (rule ccontr)
  assume "\<not> a < b"
  then have "b \<le> a" by simp
  then have "power_int (2::rat) b \<le> power_int 2 a" by (rule power_int_increasing) simp
  with assms show False by simp
qed

text \<open>A number whose significand needs no rounding is a double.\<close>

lemma to_double_integral_mantissa:
  assumes "0 < x" "- 1022 \<le> binade x" "x / power_int 2 (binade x - 52) = of_int j"
  shows "to_double x = x"
proof -
  have "to_double x
      = of_int (round_half_even (x / power_int 2 (binade x - 52))) * power_int 2 (binade x - 52)"
    using assms(1,2) by (simp add: to_double_def Let_def max_def)
  also have "\<dots> = x / power_int 2 (binade x - 52) * power_int 2 (binade x - 52)"
    by (simp only: assms(3) round_half_even_of_int)
  also have "\<dots> = x" by simp
  finally show ?thesis .
qed

lemma to_double_of_int_pos:
  assumes "0 < k" "k \<le> 2 ^ 53"
  shows "to_double (of_int k) = of_int k"
proof -
  define x :: rat where "x = of_int k"
  define e where "e = binade x"
  have xpos: "0 < x" using assms(1) by (simp add: x_def)
  have lo: "power_int 2 e \<le> x" and hi: "x < power_int 2 (e + 1)"
    unfolding e_def using binade_bounds [OF xpos] by simp_all
  have x1: "1 \<le> x" using assms(1) by (simp add: x_def)
  have "power_int (2::rat) 0 < power_int 2 (e + 1)" using x1 hi by simp
  then have "0 < e + 1" by (rule pow2_less_D)
  then have e0: "0 \<le> e" by simp
  have "(of_int k :: rat) \<le> of_int (2 ^ 53)" using assms(2) by (rule of_int_le_iff [THEN iffD2])
  then have xle: "x \<le> power_int 2 53" by (simp add: x_def)
  with lo have "power_int (2::rat) e \<le> power_int 2 53" by simp
  then have e53: "e \<le> 53" by (rule pow2_le_D)
  have "\<exists>j. x / power_int 2 (e - 52) = of_int j"
  proof (cases "e \<le> 52")
    case True
    have "e - 52 = - (52 - e)" by simp
    then have "x / power_int 2 (e - 52) = x * power_int 2 (52 - e)"
      by (simp only: power_int_minus) (simp add: field_simps)
    also have "power_int (2::rat) (52 - e) = 2 ^ nat (52 - e)"
      using True by (simp add: power_int_def)
    also have "x * 2 ^ nat (52 - e) = of_int (k * 2 ^ nat (52 - e))" by (simp add: x_def)
    finally show ?thesis by blast
  next
    case False
    with e53 have e: "e = 53" by simp
    with lo xle have "x = 2 ^ 53" by simp
    then have "x / power_int 2 (e - 52) = of_int (2 ^ 52)" by (simp add: e)
    then show ?thesis by blast
  qed
  then obtain j where j: "x / power_int 2 (binade x - 52) = of_int j" unfolding e_def by blast
  have "- 1022 \<le> binade x" using e0 by (simp add: e_def)
  with xpos have "to_double x = x" using j by (rule to_double_integral_mantissa)
  then show ?thesis by (simp add: x_def)
qed

text \<open>Every integer up to \<open>2 ^ 53\<close> in magnitude is a double.\<close>

lemma to_double_of_int:
  assumes "\<bar>k\<bar> \<le> 2 ^ 53"
  shows "to_double (of_int k) = of_int k"
proof -
  consider "k = 0" | "0 < k" | "k < 0" by linarith
  then show ?thesis
  proof cases
    case 1
    then show ?thesis by (simp add: to_double_def)
  next
    case 2
    with assms show ?thesis by (simp add: to_double_of_int_pos)
  next
    case 3
    with assms have "to_double (of_int (- k)) = of_int (- k)"
      by (intro to_double_of_int_pos) simp_all
    then show ?thesis by (simp add: to_double_minus)
  qed
qed

text \<open>In the normal range the relative rounding error is at most \<open>2 ^ (- 53)\<close>.\<close>

lemma to_double_error:
  assumes "power_int 2 (- 1022) \<le> x"
  shows "\<bar>to_double x - x\<bar> \<le> x / 2 ^ 53"
proof -
  define e where "e = binade x"
  define u :: rat where "u = power_int 2 (e - 52)"
  have "0 < power_int (2::rat) (- 1022)" by (rule zero_less_power_int) simp
  with assms have xpos: "0 < x" by simp
  have lo: "power_int 2 e \<le> x" and hi: "x < power_int 2 (e + 1)"
    unfolding e_def using binade_bounds [OF xpos] by simp_all
  from assms hi have "power_int (2::rat) (- 1022) < power_int 2 (e + 1)" by (rule le_less_trans)
  then have "- 1022 < e + 1" by (rule pow2_less_D)
  then have emin: "- 1022 \<le> e" by simp
  have upos: "0 < u" unfolding u_def by (rule zero_less_power_int) simp
  have td: "to_double x = of_int (round_half_even (x / u)) * u"
    using xpos emin by (simp add: to_double_def Let_def max_def e_def u_def)
  have "to_double x - x = (of_int (round_half_even (x / u)) - x / u) * u"
    using upos by (simp add: td left_diff_distrib)
  then have "\<bar>to_double x - x\<bar> = \<bar>of_int (round_half_even (x / u)) - x / u\<bar> * \<bar>u\<bar>"
    by (simp only: abs_mult)
  also have "\<dots> = \<bar>of_int (round_half_even (x / u)) - x / u\<bar> * u"
    using upos by simp
  also have "\<dots> \<le> 1 / 2 * u"
    using upos round_half_even_error [of "x / u"] by (intro mult_right_mono) simp_all
  also have "\<dots> = power_int 2 e / 2 ^ 53"
  proof -
    have "u = power_int 2 e / power_int 2 52" unfolding u_def by (rule power_int_diff) simp
    then show ?thesis by simp
  qed
  also have "\<dots> \<le> x / 2 ^ 53" using lo by (simp add: divide_right_mono)
  finally show ?thesis .
qed

section \<open>The aggregate of whole ratings\<close>

lemma whole_of_int: "whole (of_int k)"
  by (simp add: whole_def)

lemma whole_add: "whole a \<Longrightarrow> whole b \<Longrightarrow> whole (a + b)"
  by (metis whole_def of_int_add whole_of_int)

lemma whole_numeral: "whole (numeral w)"
  using whole_of_int [of "numeral w"] by simp

lemma whole_1: "whole 1"
  using whole_of_int [of 1] by simp

lemma whole_0: "whole 0"
  using whole_of_int [of 0] by simp

lemma whole_sum_list: "\<forall>r\<in>set rs. whole r \<Longrightarrow> whole (sum_list rs)"
proof (induction rs)
  case Nil
  show ?case by (simp add: whole_0)
next
  case (Cons r rs)
  then show ?case by (simp add: whole_add)
qed

lemma to_double_whole:
  assumes "whole a" "\<bar>a\<bar> \<le> 2 ^ 53"
  shows "to_double a = a"
proof -
  from assms(1) have a: "a = of_int \<lfloor>a\<rfloor>" by (simp add: whole_def)
  have "\<bar>(of_int \<lfloor>a\<rfloor> :: rat)\<bar> \<le> of_int (2 ^ 53)" using assms(2) a by simp
  then have "(of_int \<bar>\<lfloor>a\<rfloor>\<bar> :: rat) \<le> of_int (2 ^ 53)" by (simp only: of_int_abs)
  then have "\<bar>\<lfloor>a\<rfloor>\<bar> \<le> 2 ^ 53" by (rule of_int_le_iff [THEN iffD1])
  then have "to_double (of_int \<lfloor>a\<rfloor>) = of_int \<lfloor>a\<rfloor>" by (rule to_double_of_int)
  with a show ?thesis by simp
qed

text \<open>A result that is not negative and rounds below \<open>2 ^ 1024\<close> is a finite number.\<close>

lemma number_of_finite:
  assumes "to_double x < 2 ^ 1024" "0 \<le> to_double x" "0 \<le> x"
  shows "number_of x = Finite (to_double x)"
  using assms by (simp add: number_of_def Let_def)

lemma number_of_whole:
  assumes "whole a" "0 \<le> a" "a \<le> 2 ^ 53"
  shows "number_of a = Finite a"
proof -
  have "to_double a = a" using assms by (intro to_double_whole) simp_all
  moreover have "a < 2 ^ 1024" using assms(3) by simp
  ultimately show ?thesis using assms(2) by (simp add: number_of_finite)
qed

lemma number_of_succ:
  assumes "int n + 1 \<le> 2 ^ 53"
  shows "number_of (of_nat n + 1) = Finite (1 + of_nat n)"
proof -
  have "(of_int (int n + 1) :: rat) \<le> of_int (2 ^ 53)"
    using assms by (rule of_int_le_iff [THEN iffD2])
  then have "(of_nat n :: rat) + 1 \<le> 2 ^ 53" by simp
  moreover have "whole (of_nat n + 1 :: rat)" using whole_of_int [of "int n + 1"] by simp
  ultimately have "number_of (of_nat n + 1) = Finite (of_nat n + 1)"
    by (intro number_of_whole) simp_all
  then show ?thesis by (simp add: add.commute)
qed

lemma whole_ratingE:
  assumes "whole_rating n"
  obtains r where "n = Finite r" "whole r" "0 \<le> r"
  using assms by (cases n) auto

lemma rating_values_nonneg:
  assumes "\<forall>d\<in>set docs. whole_rating (review_rating d)"
  shows "\<forall>r\<in>set (rating_values docs). whole r \<and> 0 \<le> r"
proof
  fix r assume "r \<in> set (rating_values docs)"
  then obtain d where d: "d \<in> set docs" "r = finite_value (review_rating d)"
    by (auto simp: rating_values_def)
  with assms have "whole_rating (review_rating d)" by simp
  then show "whole r \<and> 0 \<le> r" using d(2) by (auto elim: whole_ratingE)
qed

lemma rating_values_sum_nonneg:
  assumes "\<forall>d\<in>set docs. whole_rating (review_rating d)"
  shows "0 \<le> sum_list (rating_values docs)"
  using rating_values_nonneg [OF assms] by (intro sum_list_nonneg) auto

text \<open>The loop adds whole ratings and counts without rounding.\<close>

lemma tally_fold:
  assumes "\<forall>d\<in>set docs. whole_rating (review_rating d)"
    and "whole t" "0 \<le> t" "t + sum_list (rating_values docs) \<le> 2 ^ 53"
    and "int n + int (length docs) \<le> 2 ^ 53"
  shows "foldl (\<lambda>(totalRating, reviewCount) d.
            (js_add totalRating (review_rating d), js_add reviewCount (Finite 1)))
            (Finite t, Finite (of_nat n)) docs
         = (Finite (t + sum_list (rating_values docs)), Finite (of_nat (n + length docs)))"
  using assms
proof (induction docs arbitrary: t n)
  case Nil
  then show ?case by (simp add: rating_values_def)
next
  case (Cons d docs)
  from Cons.prems(1) have "whole_rating (review_rating d)" by simp
  then obtain r where r: "review_rating d = Finite r" "whole r" "0 \<le> r"
    by (rule whole_ratingE)
  have all: "\<forall>d\<in>set docs. whole_rating (review_rating d)" using Cons.prems(1) by simp
  have vals: "rating_values (d # docs) = r # rating_values docs"
    by (simp add: rating_values_def r(1))
  have rest: "0 \<le> sum_list (rating_values docs)" using all by (rule rating_values_sum_nonneg)
  have sum: "t + r + sum_list (rating_values docs) \<le> 2 ^ 53"
    using Cons.prems(4) by (simp add: vals add.assoc)
  have "t + r \<le> 2 ^ 53" using sum rest by simp
  then have s1: "number_of (t + r) = Finite (t + r)"
    using whole_add [OF Cons.prems(2) r(2)] Cons.prems(3) r(3) by (intro number_of_whole) simp_all
  have s2: "number_of (of_nat n + 1) = Finite (1 + of_nat n)"
    using Cons.prems(5) by (intro number_of_succ) simp
  have "foldl (\<lambda>(totalRating, reviewCount) d.
            (js_add totalRating (review_rating d), js_add reviewCount (Finite 1)))
            (Finite (t + r), Finite (of_nat (Suc n))) docs
         = (Finite (t + r + sum_list (rating_values docs)), Finite (of_nat (Suc n + length docs)))"
  proof (rule Cons.IH)
    show "\<forall>d\<in>set docs. whole_rating (review_rating d)" by (rule all)
    show "whole (t + r)" using Cons.prems(2) r(2) by (rule whole_add)
    show "0 \<le> t + r" using Cons.prems(3) r(3) by simp
    show "t + r + sum_list (rating_values docs) \<le> 2 ^ 53" by (rule sum)
    show "int (Suc n) + int (length docs) \<le> 2 ^ 53" using Cons.prems(5) by simp
  qed
  then show ?case by (simp add: r(1) s1 s2 vals add.assoc)
qed

lemma tally_exact:
  assumes "\<forall>d\<in>set docs. whole_rating (review_rating d)"
    and "sum_list (rating_values docs) \<le> 2 ^ 53"
    and "int (length docs) \<le> 2 ^ 53"
  shows "tally docs = (Finite (sum_list (rating_values docs)), Finite (of_nat (length docs)))"
proof -
  have "foldl (\<lambda>(totalRating, reviewCount) d.
            (js_add totalRating (review_rating d), js_add reviewCount (Finite 1)))
            (Finite 0, Finite (of_nat 0)) docs
         = (Finite (0 + sum_list (rating_values docs)), Finite (of_nat (0 + length docs)))"
    using assms by (intro tally_fold) (simp_all add: whole_0)
  then show ?thesis by (simp add: tally_def)
qed

lemma snd_tally_fold:
  "snd (foldl (\<lambda>(totalRating, reviewCount) d.
            (js_add totalRating (review_rating d), js_add reviewCount (Finite 1))) (t, c) docs)
   = ((\<lambda>c. js_add c (Finite 1)) ^^ length docs) c"
  by (induction docs arbitrary: t c)
     (simp_all add: funpow_swap1 [of "\<lambda>c. js_add c (Finite 1)"])

lemma tally_count_length:
  "length docs = length docs' \<Longrightarrow> snd (tally docs) = snd (tally docs')"
  by (simp add: tally_def snd_tally_fold)

text \<open>The count is exact whatever the ratings are.\<close>

lemma count_exact:
  "int n + int k \<le> 2 ^ 53 \<Longrightarrow>
     ((\<lambda>c. js_add c (Finite 1)) ^^ k) (Finite (of_nat n)) = Finite (of_nat (n + k))"
proof (induction k arbitrary: n)
  case 0
  show ?case by simp
next
  case (Suc k)
  have s: "number_of (of_nat n + 1) = Finite (1 + of_nat n)"
    using Suc.prems by (intro number_of_succ) simp
  have "((\<lambda>c. js_add c (Finite 1)) ^^ k) (Finite (of_nat (Suc n))) = Finite (of_nat (Suc n + k))"
    using Suc.prems by (intro Suc.IH) simp
  then show ?case by (simp add: funpow_swap1 [of "\<lambda>c. js_add c (Finite 1)"] s)
qed

lemma tally_count:
  assumes "int (length docs) \<le> 2 ^ 53"
  shows "snd (tally docs) = Finite (of_nat (length docs))"
  using count_exact [of 0 "length docs"] assms by (simp add: tally_def snd_tally_fold)





lemma quotient_double_bounds:
  fixes S n :: int
  assumes "0 < S" "0 < n" "n \<le> 2 ^ 53"
  defines "q \<equiv> (of_int S / of_int n :: rat)"
  shows "\<bar>to_double q - q\<bar> \<le> q / 2 ^ 53" and "0 < q"
proof -
  have nr: "(0::rat) < of_int n" using assms(2) by simp
  have Sr: "(1::rat) \<le> of_int S" using assms(1) by simp
  have "(of_int n :: rat) \<le> of_int (2 ^ 53)" using assms(3) by (rule of_int_le_iff [THEN iffD2])
  then have nle: "(of_int n :: rat) \<le> 2 ^ 53" by simp
  have "1 / 2 ^ 53 \<le> 1 / (of_int n :: rat)" using nr nle by (simp add: frac_le)
  also have "\<dots> \<le> q" unfolding q_def using nr Sr by (simp add: divide_right_mono)
  finally have qlo: "1 / 2 ^ 53 \<le> q" .
  then show "0 < q" by (rule less_le_trans [rotated]) simp
  have "power_int (2::rat) (- 1022) \<le> power_int 2 (- 53)" by (rule power_int_increasing) simp_all
  also have "\<dots> = 1 / 2 ^ 53" by (simp add: power_int_minus_divide)
  finally have "power_int 2 (- 1022) \<le> q" using qlo by simp
  then show "\<bar>to_double q - q\<bar> \<le> q / 2 ^ 53" by (rule to_double_error)
qed

lemma half_up_stable:
  fixes S n :: int
  assumes "0 < S" "0 < n" "20 * S < 2 ^ 53" "n \<le> 2 ^ 53"
    and "\<not> tie (of_int S / of_int n)"
  shows "\<lfloor>to_double (of_int S / of_int n) * 10 + 1 / 2\<rfloor> = \<lfloor>(of_int S / of_int n :: rat) * 10 + 1 / 2\<rfloor>"
proof -
  define q :: rat where "q = of_int S / of_int n"
  define k where "k = \<lfloor>q * 10 + 1 / 2\<rfloor>"
  define d where "d = q * 10 + 1 / 2 - of_int k"
  define E where "E = to_double q - q"
  define N where "N = 20 * S + n - 2 * k * n"
  have nr: "(0::rat) < of_int n" using assms(2) by simp
  have err: "\<bar>E\<bar> \<le> q / 2 ^ 53" and qpos: "0 < q"
    unfolding E_def q_def using assms(1,2,4) by (rule quotient_double_bounds)+
  have d0: "0 \<le> d" and d1: "d < 1" unfolding d_def k_def by linarith+
  have "d \<noteq> 0" using assms(5) by (simp add: tie_def d_def k_def q_def)
  with d0 have dpos: "0 < d" by simp
  have Nd: "of_int N = 2 * of_int n * d"
    using nr by (simp add: N_def d_def q_def field_simps)
  have "(0::rat) < of_int N" unfolding Nd using nr dpos by simp
  then have "1 \<le> N" by simp
  then have "(of_int 1 :: rat) \<le> of_int N" by (rule of_int_le_iff [THEN iffD2])
  then have B1: "1 \<le> 2 * of_int n * d" by (simp add: Nd)
  have "(of_int N :: rat) < of_int (2 * n)" unfolding Nd using nr d1 by simp
  then have "N < 2 * n" by (rule of_int_less_iff [THEN iffD1])
  then have "N \<le> 2 * n - 1" by simp
  then have "(of_int N :: rat) \<le> of_int (2 * n - 1)" by (rule of_int_le_iff [THEN iffD2])
  then have B2: "2 * of_int n * d \<le> 2 * of_int n - 1" by (simp add: Nd)
  have "20 * of_int n * \<bar>E\<bar> \<le> 20 * of_int n * (q / 2 ^ 53)"
    using err nr by (intro mult_left_mono) simp_all
  also have "\<dots> = of_int (20 * S) / 2 ^ 53" using nr by (simp add: q_def)
  also have "\<dots> < 1"
  proof -
    have "(of_int (20 * S) :: rat) < of_int (2 ^ 53)" using assms(3) by (rule of_int_less_iff [THEN iffD2])
    then show ?thesis by simp
  qed
  finally have A: "20 * of_int n * \<bar>E\<bar> < 1" .
  have A': "\<bar>20 * of_int n * E\<bar> < 1" using A nr by (simp add: abs_mult)
  have "0 < 2 * of_int n * d + 20 * of_int n * E" using B1 A' by linarith
  then have "0 < 2 * of_int n * (d + 10 * E)" by (simp add: algebra_simps)
  then have lo: "0 < d + 10 * E" using nr by (simp add: zero_less_mult_iff)
  have "2 * of_int n * d + 20 * of_int n * E < 2 * of_int n" using B2 A' by linarith
  then have "2 * of_int n * (d + 10 * E) < 2 * of_int n * 1" by (simp add: algebra_simps)
  then have hi: "d + 10 * E < 1" using nr by (simp only: mult_less_cancel_left_pos) 
  have "\<lfloor>to_double q * 10 + 1 / 2\<rfloor> = k"
  proof (rule floor_unique)
    show "of_int k \<le> to_double q * 10 + 1 / 2" using lo by (simp add: d_def E_def)
    show "to_double q * 10 + 1 / 2 < of_int k + 1" using hi by (simp add: d_def E_def)
  qed
  then show ?thesis by (simp add: k_def q_def)
qed


lemma quotient_double_range:
  fixes S n :: int
  assumes "0 < S" "0 < n" "20 * S < 2 ^ 53" "n \<le> 2 ^ 53"
  shows "0 < to_double (of_int S / of_int n)" and "to_double (of_int S / of_int n) < 10 ^ 21"
proof -
  define q :: rat where "q = of_int S / of_int n"
  define y where "y = to_double q"
  have nr: "(1::rat) \<le> of_int n" using assms(2) by simp
  have err: "\<bar>y - q\<bar> \<le> q / 2 ^ 53" and qpos: "0 < q"
    unfolding y_def q_def using assms(1,2,4) by (rule quotient_double_bounds)+
  have "q / 2 ^ 53 < q" using qpos by (simp add: field_simps)
  with err have ypos: "0 < y" and y2: "y < 2 * q" by linarith+
  have "q \<le> of_int S"
    unfolding q_def using nr assms(1) by (simp add: field_simps mult_le_cancel_left1)
  moreover have "(of_int (20 * S) :: rat) < of_int (2 ^ 53)"
    using assms(3) by (rule of_int_less_iff [THEN iffD2])
  ultimately have "2 * q < 2 ^ 53" using qpos by simp
  with y2 have "y < 2 ^ 53" by simp
  also have "(2::rat) ^ 53 < 10 ^ 21" by simp
  finally show "to_double (of_int S / of_int n) < 10 ^ 21" by (simp add: y_def q_def)
  show "0 < to_double (of_int S / of_int n)" using ypos by (simp add: y_def q_def)
qed

text \<open>The quotient of a whole total by a count, and what is written for it.\<close>

lemma js_div_quotient:
  fixes S n :: int
  assumes "0 \<le> S" "0 < n" "20 * S < 2 ^ 53" "n \<le> 2 ^ 53"
  shows "js_div (Finite (of_int S)) (Finite (of_int n)) = Finite (to_double (of_int S / of_int n))"
proof (cases "S = 0")
  case True
  with assms(2) show ?thesis by (simp add: js_div_def signed_zero_def to_double_def)
next
  case False
  with assms(1) have Spos: "0 < S" by simp
  define q :: rat where "q = of_int S / of_int n"
  have y: "0 < to_double q" "to_double q < 10 ^ 21"
    unfolding q_def using Spos assms(2,3,4) by (rule quotient_double_range)+
  have "(10::rat) ^ 21 < 2 ^ 1024" by simp
  with y(2) have "to_double q < 2 ^ 1024" by (rule less_trans)
  moreover have "0 \<le> q" unfolding q_def using Spos assms(2) by simp
  ultimately have "number_of q = Finite (to_double q)" using y(1) by (intro number_of_finite) simp_all
  then show ?thesis using Spos assms(2) by (simp add: js_div_def q_def)
qed

text \<open>What is written is the half-up rounding of the double quotient.\<close>

lemma parse_quotient_double:
  fixes S n :: int
  assumes "0 \<le> S" "0 < n" "20 * S < 2 ^ 53" "n \<le> 2 ^ 53"
  shows "parseFloat_toFixed1 (Finite (to_double (of_int S / of_int n)))
       = Finite (to_double (round_half_up1 (to_double (of_int S / of_int n))))"
proof (cases "S = 0")
  case True
  have "\<lfloor>(1 / 2 :: rat)\<rfloor> = 0" by (rule floor_unique) simp_all
  with True show ?thesis
    by (simp add: to_double_def toFixed1_def round_half_up1_def)
next
  case False
  with assms(1) have Spos: "0 < S" by simp
  define y where "y = to_double (of_int S / of_int n)"
  have ypos: "0 < y" and ysmall: "y < 10 ^ 21"
    unfolding y_def using Spos assms(2,3,4) by (rule quotient_double_range)+
  have "toFixed1 y = round_half_up1 y"
    using ypos by (simp add: toFixed1_def round_half_up1_def)
  then have "parseFloat_toFixed1 (Finite y) = Finite (to_double (round_half_up1 y))"
    using ysmall ypos by simp
  then show ?thesis unfolding y_def .
qed

text \<open>It is the half-up rounding of the exact quotient off the ties that are not doubles.\<close>

lemma round_half_up_quotient:
  fixes S n :: int
  assumes "0 \<le> S" "0 < n" "20 * S < 2 ^ 53" "n \<le> 2 ^ 53"
    and "\<not> tie (of_int S / of_int n) \<or> to_double (of_int S / of_int n) = of_int S / of_int n"
  shows "round_half_up1 (to_double (of_int S / of_int n)) = round_half_up1 (of_int S / of_int n)"
proof (cases "S = 0")
  case True
  then show ?thesis by (simp add: to_double_def)
next
  case False
  with assms(1) have Spos: "0 < S" by simp
  define q :: rat where "q = of_int S / of_int n"
  have "\<lfloor>to_double q * 10 + 1 / 2\<rfloor> = \<lfloor>q * 10 + 1 / 2\<rfloor>"
  proof (cases "tie q")
    case False
    then show ?thesis unfolding q_def using Spos assms(2,3,4) by (intro half_up_stable)
  next
    case True
    with assms(5) have "to_double q = q" by (simp add: q_def)
    then show ?thesis by simp
  qed
  then have "round_half_up1 (to_double q) = round_half_up1 q"
    unfolding round_half_up1_def by (rule arg_cong)
  then show ?thesis by (simp add: q_def)
qed

text \<open>
  The rating written for reviews with whole, non-negative ratings: the double quotient
  rounded half up; the mean rounded half up, unless the mean is a tie that is not a double.
\<close>

lemma written_rating_double:
  assumes "docs \<noteq> []"
    and "\<forall>d\<in>set docs. whole_rating (review_rating d)"
    and "20 * sum_list (rating_values docs) < 2 ^ 53"
    and "int (length docs) \<le> 2 ^ 53"
  shows "parseFloat_toFixed1 (averageRating docs)
       = Finite (to_double (round_half_up1 (to_double (mean (rating_values docs)))))"
proof -
  define S where "S = \<lfloor>sum_list (rating_values docs)\<rfloor>"
  define n where "n = int (length docs)"
  have nonneg: "0 \<le> sum_list (rating_values docs)" using assms(2) by (rule rating_values_sum_nonneg)
  have "whole (sum_list (rating_values docs))"
    using rating_values_nonneg [OF assms(2)] by (intro whole_sum_list) simp
  then have S: "sum_list (rating_values docs) = of_int S" by (simp add: whole_def S_def)
  have len: "length (rating_values docs) = length docs" by (simp add: rating_values_def)
  have m: "mean (rating_values docs) = of_int S / of_int n" by (simp add: mean_def S n_def len)
  have S0: "0 \<le> S" using nonneg by (simp add: S_def)
  have n0: "0 < n" using assms(1) by (simp add: n_def)
  have "(of_int (20 * S) :: rat) < of_int (2 ^ 53)" using assms(3) by (simp add: S)
  then have S53: "20 * S < 2 ^ 53" by (rule of_int_less_iff [THEN iffD1])
  have n53: "n \<le> 2 ^ 53" using assms(4) by (simp add: n_def)
  have "sum_list (rating_values docs) \<le> 2 ^ 53" using assms(3) nonneg by simp
  with assms(2) have "tally docs = (Finite (sum_list (rating_values docs)), Finite (of_nat (length docs)))"
    using assms(4) by (intro tally_exact)
  then have t: "tally docs = (Finite (of_int S), Finite (of_int n))" by (simp add: S n_def)
  have "(0::rat) < of_int n" using n0 by simp
  then have "averageRating docs = js_div (Finite (of_int S)) (Finite (of_int n))"
    by (simp add: averageRating_def t)
  also have "\<dots> = Finite (to_double (of_int S / of_int n))"
    using S0 n0 S53 n53 by (rule js_div_quotient)
  finally have "averageRating docs = Finite (to_double (of_int S / of_int n))" .
  moreover have "parseFloat_toFixed1 (Finite (to_double (of_int S / of_int n)))
       = Finite (to_double (round_half_up1 (to_double (of_int S / of_int n))))"
    using S0 n0 S53 n53 by (rule parse_quotient_double)
  ultimately show ?thesis by (simp only: m)
qed

lemma written_rating_half_up:
  assumes "docs \<noteq> []"
    and "\<forall>d\<in>set docs. whole_rating (review_rating d)"
    and "20 * sum_list (rating_values docs) < 2 ^ 53"
    and "int (length docs) \<le> 2 ^ 53"
    and "\<not> tie (mean (rating_values docs))
         \<or> to_double (mean (rating_values docs)) = mean (rating_values docs)"
  shows "parseFloat_toFixed1 (averageRating docs)
       = Finite (to_double (round_half_up1 (mean (rating_values docs))))"
proof -
  define S where "S = \<lfloor>sum_list (rating_values docs)\<rfloor>"
  define n where "n = int (length docs)"
  have nonneg: "0 \<le> sum_list (rating_values docs)" using assms(2) by (rule rating_values_sum_nonneg)
  have "whole (sum_list (rating_values docs))"
    using rating_values_nonneg [OF assms(2)] by (intro whole_sum_list) simp
  then have S: "sum_list (rating_values docs) = of_int S" by (simp add: whole_def S_def)
  have len: "length (rating_values docs) = length docs" by (simp add: rating_values_def)
  have m: "mean (rating_values docs) = of_int S / of_int n" by (simp add: mean_def S n_def len)
  have S0: "0 \<le> S" using nonneg by (simp add: S_def)
  have n0: "0 < n" using assms(1) by (simp add: n_def)
  have "(of_int (20 * S) :: rat) < of_int (2 ^ 53)" using assms(3) by (simp add: S)
  then have S53: "20 * S < 2 ^ 53" by (rule of_int_less_iff [THEN iffD1])
  have n53: "n \<le> 2 ^ 53" using assms(4) by (simp add: n_def)
  have "round_half_up1 (to_double (of_int S / of_int n)) = round_half_up1 (of_int S / of_int n)"
    using S0 n0 S53 n53 assms(5) [unfolded m] by (rule round_half_up_quotient)
  with written_rating_double [OF assms(1-4)] show ?thesis by (simp only: m)
qed

section \<open>Facts about the store and the service\<close>

lemma backend_ok:
  assumes "reachable (Suc n) s"
  shows "backend s = (True, s\<lparr>outages := tl (outages s)\<rparr>)"
    and "reachable n (s\<lparr>outages := tl (outages s)\<rparr>)"
proof -
  show "backend s = (True, s\<lparr>outages := tl (outages s)\<rparr>)"
    using assms by (cases "outages s") (auto simp: backend_def reachable_def)
  show "reachable n (s\<lparr>outages := tl (outages s)\<rparr>)"
    using assms by (cases "outages s") (auto simp: reachable_def)
qed

lemma backend_down:
  "outages s = True # rest \<Longrightarrow> backend s = (False, s\<lparr>outages := rest\<rparr>)"
  by (simp add: backend_def)

lemma map_of_upsert: "map_of (upsert k v ds) k' = (if k' = k then Some v else map_of ds k')"
  by (induction ds) auto

lemma upsert_keys: "map_of ds k = Some old \<Longrightarrow> map fst (upsert k v ds) = map fst ds"
  by (induction ds) (auto split: if_splits)

lemma getDocs_reviews_ok:
  assumes "reachable (Suc n) s"
  shows "getDocs_reviews rid s = (Inr (room_reviews rid s), s\<lparr>outages := tl (outages s)\<rparr>)"
  by (simp add: getDocs_reviews_def backend_ok(1) [OF assms] room_reviews_def)

lemma updateRoomRating_ok:
  assumes "reachable 2 s" "map_of (rooms_coll s) rid = Some d"
  shows "updateRoomRating rid s =
     (Inr (), s\<lparr>outages := tl (tl (outages s)),
               rooms_coll := upsert rid
                  (d\<lparr>rating := Some (parseFloat_toFixed1 (averageRating (room_reviews rid s))),
                     reviews := Some (snd (tally (room_reviews rid s))),
                     updatedAt := Some (serverTime s)\<rparr>) (rooms_coll s),
               serverTime := Suc (serverTime s)\<rparr>)"
proof -
  have r2: "reachable (Suc 1) s" using assms(1) by (simp add: numeral_2_eq_2)
  let ?s1 = "s\<lparr>outages := tl (outages s)\<rparr>"
  have r1: "reachable (Suc 0) ?s1" using backend_ok(2) [OF r2] by simp
  have b1: "backend ?s1 = (True, ?s1\<lparr>outages := tl (outages ?s1)\<rparr>)"
    using r1 by (rule backend_ok(1))
  show ?thesis
    by (simp add: updateRoomRating_def getDocs_reviews_ok [OF r2] updateDoc_rooms_def b1 assms(2)
        room_reviews_def)
qed

lemma updateRoomRating_summary:
  assumes "reachable 2 s" "map_of (rooms_coll s) rid = Some d"
  shows "summary rid (snd (updateRoomRating rid s)) =
     Some (Some (parseFloat_toFixed1 (averageRating (room_reviews rid s))),
           Some (snd (tally (room_reviews rid s))))"
  by (simp add: updateRoomRating_ok [OF assms] summary_def map_of_upsert)


lemma addReview_ok:
  assumes "currentUser s = Some u" "reachable 3 s" "map_of (rooms_coll s) rid = Some d"
  shows "addReview rid r c s =
     (Inr (), s\<lparr>outages := tl (tl (tl (outages s))),
               reviews_coll := upsert (review_key (uid u) rid)
                  \<lparr>userId = uid u, roomId = rid, userName = userName_of u, review_rating = r,
                   comment = c, review_createdAt = serverTime s, review_updatedAt = serverTime s\<rparr>
                  (reviews_coll s),
               rooms_coll := upsert rid
                  (d\<lparr>rating := Some (parseFloat_toFixed1 (averageRating
                        (filter (\<lambda>d. roomId d = rid) (map snd (upsert (review_key (uid u) rid)
                  \<lparr>userId = uid u, roomId = rid, userName = userName_of u, review_rating = r,
                   comment = c, review_createdAt = serverTime s, review_updatedAt = serverTime s\<rparr>
                  (reviews_coll s)))))),
                     reviews := Some (snd (tally
                        (filter (\<lambda>d. roomId d = rid) (map snd (upsert (review_key (uid u) rid)
                  \<lparr>userId = uid u, roomId = rid, userName = userName_of u, review_rating = r,
                   comment = c, review_createdAt = serverTime s, review_updatedAt = serverTime s\<rparr>
                  (reviews_coll s)))))),
                     updatedAt := Some (Suc (serverTime s))\<rparr>) (rooms_coll s),
               serverTime := Suc (Suc (serverTime s))\<rparr>)"
proof -
  have r3: "reachable (Suc 2) s" using assms(2) by (simp add: eval_nat_numeral)
  let ?doc = "\<lparr>userId = uid u, roomId = rid, userName = userName_of u, review_rating = r,
                   comment = c, review_createdAt = serverTime s, review_updatedAt = serverTime s\<rparr>"
  let ?s1 = "s\<lparr>outages := tl (outages s),
               reviews_coll := upsert (review_key (uid u) rid) ?doc (reviews_coll s),
               serverTime := Suc (serverTime s)\<rparr>"
  have w: "setDoc_reviews (review_key (uid u) rid)
             (\<lambda>t. \<lparr>userId = uid u, roomId = rid, userName = userName_of u, review_rating = r,
                   comment = c, review_createdAt = t, review_updatedAt = t\<rparr>) s = (Inr (), ?s1)"
    by (simp add: setDoc_reviews_def backend_ok(1) [OF r3])
  have "reachable 2 (s\<lparr>outages := tl (outages s)\<rparr>)" using r3 by (rule backend_ok(2))
  then have r2: "reachable 2 ?s1" by (simp add: reachable_def)
  have room: "map_of (rooms_coll ?s1) rid = Some d" using assms(3) by simp
  show ?thesis
    by (simp add: addReview_def assms(1) w updateRoomRating_ok [OF r2 room] room_reviews_def)
qed

lemma upsert_room_docs_new:
  assumes "roomId v = rid" "\<forall>d. (k, d) \<in> set ds \<longrightarrow> roomId d \<noteq> rid"
  shows "\<exists>xs ys. filter (\<lambda>d. roomId d = rid) (map snd ds) = xs @ ys
           \<and> filter (\<lambda>d. roomId d = rid) (map snd (upsert k v ds)) = xs @ v # ys"
  using assms(2)
proof (induction ds)
  case Nil
  then show ?case using assms(1) by simp
next
  case (Cons p ds)
  obtain k' v' where p: "p = (k', v')" by (cases p)
  show ?case
  proof (cases "k' = k")
    case True
    with Cons.prems p have "roomId v' \<noteq> rid" by simp
    with True p assms(1) have
      "filter (\<lambda>d. roomId d = rid) (map snd (p # ds)) = [] @ filter (\<lambda>d. roomId d = rid) (map snd ds)"
      "filter (\<lambda>d. roomId d = rid) (map snd (upsert k v (p # ds)))
         = [] @ v # filter (\<lambda>d. roomId d = rid) (map snd ds)"
      by simp_all
    then show ?thesis by blast
  next
    case False
    from Cons.prems have "\<forall>d. (k, d) \<in> set ds \<longrightarrow> roomId d \<noteq> rid" by simp
    from Cons.IH [OF this] obtain xs ys where
      ih: "filter (\<lambda>d. roomId d = rid) (map snd ds) = xs @ ys"
          "filter (\<lambda>d. roomId d = rid) (map snd (upsert k v ds)) = xs @ v # ys" by blast
    show ?thesis
    proof (cases "roomId v' = rid")
      case True
      with False p ih have
        "filter (\<lambda>d. roomId d = rid) (map snd (p # ds)) = (v' # xs) @ ys"
        "filter (\<lambda>d. roomId d = rid) (map snd (upsert k v (p # ds))) = (v' # xs) @ v # ys"
        by simp_all
      then show ?thesis by blast
    next
      case no: False
      with False p ih have
        "filter (\<lambda>d. roomId d = rid) (map snd (p # ds)) = xs @ ys"
        "filter (\<lambda>d. roomId d = rid) (map snd (upsert k v (p # ds))) = xs @ v # ys"
        by simp_all
      then show ?thesis by blast
    qed
  qed
qed

lemma upsert_room_docs_old:
  assumes "roomId v = rid" "map_of ds k = Some old" "roomId old = rid"
  shows "\<exists>i < length (filter (\<lambda>d. roomId d = rid) (map snd ds)).
           filter (\<lambda>d. roomId d = rid) (map snd ds) ! i = old
           \<and> filter (\<lambda>d. roomId d = rid) (map snd (upsert k v ds))
               = (filter (\<lambda>d. roomId d = rid) (map snd ds))[i := v]"
  using assms(2)
proof (induction ds)
  case Nil
  then show ?case by simp
next
  case (Cons p ds)
  obtain k' v' where p: "p = (k', v')" by (cases p)
  show ?case
  proof (cases "k' = k")
    case True
    with Cons.prems p have "v' = old" by simp
    with True p assms(1,3) show ?thesis by (intro exI [of _ 0]) simp
  next
    case False
    with Cons.prems p have "map_of ds k = Some old" by simp
    from Cons.IH [OF this] obtain i where
      ih: "i < length (filter (\<lambda>d. roomId d = rid) (map snd ds))"
          "filter (\<lambda>d. roomId d = rid) (map snd ds) ! i = old"
          "filter (\<lambda>d. roomId d = rid) (map snd (upsert k v ds))
               = (filter (\<lambda>d. roomId d = rid) (map snd ds))[i := v]" by blast
    show ?thesis
    proof (cases "roomId v' = rid")
      case True
      with False p ih show ?thesis by (intro exI [of _ "Suc i"]) simp
    next
      case no: False
      with False p ih show ?thesis by (intro exI [of _ i]) simp
    qed
  qed
qed

lemma set_upsert: "set (upsert k v ds) \<subseteq> insert (k, v) (set ds)"
  by (induction ds) (auto split: if_splits)

lemma reachable_less: "reachable (Suc n) s \<Longrightarrow> reachable n s"
  unfolding reachable_def using set_take_subset_set_take [of n "Suc n" "outages s"] by auto

lemma reachable_tl:
  assumes "reachable (Suc n) s" "outages s' = tl (outages s)"
  shows "reachable n s'"
  using assms by (cases "outages s") (auto simp: reachable_def)

lemma upsert_mem: "(k, v) \<in> set (upsert k v ds)"
  by (induction ds) auto

lemma getDoc_rooms_ok:
  assumes "reachable (Suc n) s"
  shows "getDoc_rooms k s = (Inr (map_of (rooms_coll s) k), s\<lparr>outages := tl (outages s)\<rparr>)"
  by (simp add: getDoc_rooms_def backend_ok(1) [OF assms])

lemma getRoomById_ok:
  assumes "reachable (Suc n) s"
  shows "getRoomById k s =
     (case map_of (rooms_coll s) k of
        None \<Rightarrow> Inl RoomNotFound
      | Some d \<Rightarrow> Inr (d\<lparr>room_id := patched_opt (room_id d) (Some k)\<rparr>),
      s\<lparr>outages := tl (outages s)\<rparr>)"
  by (simp add: getRoomById_def getDoc_rooms_ok [OF assms] split: option.split)

lemma favorite_rooms_all:
  "reachable (length ks) s \<Longrightarrow>
   fst (favorite_rooms acc ks s) =
     acc @ concat (map (\<lambda>k. case map_of (rooms_coll s) k of
                               None \<Rightarrow> []
                             | Some d \<Rightarrow> [d\<lparr>room_id := patched_opt (room_id d) (Some k)\<rparr>]) ks)"
proof (induction ks arbitrary: acc s)
  case Nil
  then show ?case by simp
next
  case (Cons k ks)
  let ?s1 = "s\<lparr>outages := tl (outages s)\<rparr>"
  have r: "reachable (Suc (length ks)) s" using Cons.prems by simp
  then have r1: "reachable (length ks) ?s1" by (rule reachable_tl) simp
  have rooms: "rooms_coll ?s1 = rooms_coll s" by simp
  show ?case
    by (simp add: getRoomById_ok [OF r] Cons.IH [OF r1] split: option.split)
qed

lemma reachable_no_outages: "outages s = [] \<Longrightarrow> reachable n s"
  by (simp add: reachable_def)

lemma review_key_inject: "review_key a rid = review_key b rid \<longleftrightarrow> a = b"
  by (simp add: review_key_def)

text \<open>
  A run of submissions by distinct reviewers, none of whom has a review of the room yet:
  every call succeeds and adds one review to those of the room.
\<close>

lemma submit_reviews_run:
  assumes "outages s = []" "map_of (rooms_coll s) rid = Some d"
    and "distinct (map (\<lambda>x. uid (fst x)) subs)"
    and "\<forall>x\<in>set subs. \<forall>doc. (review_key (uid (fst x)) rid, doc) \<in> set (reviews_coll s)
            \<longrightarrow> roomId doc \<noteq> rid"
  shows "\<exists>s'. submit_reviews rid subs s = (Inr (), s')
      \<and> length (room_reviews rid s') = length (room_reviews rid s) + length subs
      \<and> sum_list (rating_values (room_reviews rid s'))
          = sum_list (rating_values (room_reviews rid s))
            + sum_list (map (\<lambda>x. finite_value (fst (snd x))) subs)
      \<and> set (map review_rating (room_reviews rid s'))
          = set (map review_rating (room_reviews rid s)) \<union> set (map (\<lambda>x. fst (snd x)) subs)
      \<and> (subs \<noteq> [] \<longrightarrow> summary rid s'
            = Some (Some (parseFloat_toFixed1 (averageRating (room_reviews rid s'))),
                    Some (snd (tally (room_reviews rid s')))))"
  using assms
proof (induction subs arbitrary: s d)
  case Nil
  then show ?case by simp
next
  case (Cons x subs)
  obtain usr r c where x: "x = (usr, r, c)" by (cases x)
  let ?s0 = "s\<lparr>currentUser := Some usr\<rparr>"
  let ?k = "review_key (uid usr) rid"
  let ?doc = "\<lparr>userId = uid usr, roomId = rid, userName = userName_of usr, review_rating = r,
      comment = c, review_createdAt = serverTime s, review_updatedAt = serverTime s\<rparr>"
  have u0: "currentUser ?s0 = Some usr" by simp
  have r0: "reachable 3 ?s0" using Cons.prems(1) by (simp add: reachable_no_outages)
  have d0: "map_of (rooms_coll ?s0) rid = Some d" using Cons.prems(2) by simp
  obtain s1 where s1: "addReview rid r c ?s0 = (Inr (), s1)"
      "reviews_coll s1 = upsert ?k ?doc (reviews_coll s)"
      "outages s1 = []"
      "summary rid s1 = Some (Some (parseFloat_toFixed1 (averageRating (room_reviews rid s1))),
           Some (snd (tally (room_reviews rid s1))))"
    using Cons.prems(1)
    by (simp add: addReview_ok [OF u0 r0 d0] summary_def map_of_upsert room_reviews_def)
  from s1(4) obtain d1 where d1: "map_of (rooms_coll s1) rid = Some d1"
    by (auto simp: summary_def)
  have fresh: "\<forall>doc. (?k, doc) \<in> set (reviews_coll s) \<longrightarrow> roomId doc \<noteq> rid"
    using Cons.prems(4) by (simp add: x)
  have "roomId ?doc = rid" by simp
  from upsert_room_docs_new [OF this fresh]
  obtain xs ys where split: "room_reviews rid s = xs @ ys" "room_reviews rid s1 = xs @ ?doc # ys"
    unfolding room_reviews_def s1(2) by blast
  have len1: "length (room_reviews rid s1) = length (room_reviews rid s) + 1"
    and sum1: "sum_list (rating_values (room_reviews rid s1))
                = sum_list (rating_values (room_reviews rid s)) + finite_value r"
    and set1: "set (map review_rating (room_reviews rid s1))
                = insert r (set (map review_rating (room_reviews rid s)))"
    by (simp_all add: split rating_values_def)
  have dist: "distinct (map (\<lambda>x. uid (fst x)) subs)" using Cons.prems(3) by simp
  have fresh1: "\<forall>y\<in>set subs. \<forall>doc. (review_key (uid (fst y)) rid, doc) \<in> set (reviews_coll s1)
            \<longrightarrow> roomId doc \<noteq> rid"
  proof (intro ballI allI impI)
    fix y doc
    assume y: "y \<in> set subs" and mem: "(review_key (uid (fst y)) rid, doc) \<in> set (reviews_coll s1)"
    have "uid usr \<notin> (\<lambda>x. uid (fst x)) ` set subs" using Cons.prems(3) by (simp add: x)
    with y have "uid (fst y) \<noteq> uid usr" by (metis image_eqI)
    then have "review_key (uid (fst y)) rid \<noteq> ?k" by (simp add: review_key_inject)
    with mem set_upsert [of ?k ?doc "reviews_coll s"]
    have "(review_key (uid (fst y)) rid, doc) \<in> set (reviews_coll s)" by (auto simp: s1(2))
    with Cons.prems(4) y show "roomId doc \<noteq> rid" by simp
  qed
  from Cons.IH [OF s1(3) d1 dist fresh1]
  obtain s' where s': "submit_reviews rid subs s1 = (Inr (), s')"
      "length (room_reviews rid s') = length (room_reviews rid s1) + length subs"
      "sum_list (rating_values (room_reviews rid s'))
          = sum_list (rating_values (room_reviews rid s1))
            + sum_list (map (\<lambda>x. finite_value (fst (snd x))) subs)"
      "set (map review_rating (room_reviews rid s'))
          = set (map review_rating (room_reviews rid s1)) \<union> set (map (\<lambda>x. fst (snd x)) subs)"
      "subs \<noteq> [] \<longrightarrow> summary rid s'
            = Some (Some (parseFloat_toFixed1 (averageRating (room_reviews rid s'))),
                    Some (snd (tally (room_reviews rid s'))))"
    by blast
  have run: "submit_reviews rid (x # subs) s = (Inr (), s')" by (simp add: x s1(1) s'(1))
  have summ: "summary rid s'
            = Some (Some (parseFloat_toFixed1 (averageRating (room_reviews rid s'))),
                    Some (snd (tally (room_reviews rid s'))))"
  proof (cases "subs = []")
    case True
    with s'(1) have "s' = s1" by simp
    with s1(4) show ?thesis by simp
  next
    case False
    with s'(5) show ?thesis by simp
  qed
  show ?case
    using run summ s'(2,3,4) len1 sum1 set1 by (auto simp: x)
qed

lemma sum_list_le_5: "\<forall>r\<in>set rs. r \<le> (5::rat) \<Longrightarrow> sum_list rs \<le> 5 * of_nat (length rs)"
  by (induction rs) (auto simp: algebra_simps)

text \<open>
  What a run of submissions by distinct reviewers with ratings 1 to 5 leaves on a room
  that had no reviews: the average of exactly the submitted ratings.
\<close>

lemma submitted_reviews_aggregate:
  assumes "outages s = []" "map_of (rooms_coll s) rid = Some d" "room_reviews rid s = []"
    and "subs \<noteq> []" "length subs \<le> 2 ^ 40"
    and "distinct (map (\<lambda>x. uid (fst x)) subs)"
    and "\<forall>x\<in>set subs. fst (snd x) \<in> {Finite 1, Finite 2, Finite 3, Finite 4, Finite 5}"
  shows "\<exists>s' L. submit_reviews rid subs s = (Inr (), s')
      \<and> summary rid s'
          = Some (Some (parseFloat_toFixed1 (averageRating L)), Some (Finite (of_nat (length subs))))
      \<and> L \<noteq> [] \<and> (\<forall>doc\<in>set L. whole_rating (review_rating doc))
      \<and> 20 * sum_list (rating_values L) < 2 ^ 53 \<and> int (length L) \<le> 2 ^ 53
      \<and> mean (rating_values L) = mean (map (\<lambda>x. finite_value (fst (snd x))) subs)"
proof -
  let ?R = "map (\<lambda>x. fst (snd x)) subs"
  let ?V = "map (\<lambda>x. finite_value (fst (snd x))) subs"
  have fresh: "\<forall>x\<in>set subs. \<forall>doc. (review_key (uid (fst x)) rid, doc) \<in> set (reviews_coll s)
            \<longrightarrow> roomId doc \<noteq> rid"
  proof (intro ballI allI impI)
    fix x doc
    assume "(review_key (uid (fst x)) rid, doc) \<in> set (reviews_coll s)"
    then have "doc \<in> set (map snd (reviews_coll s))" by force
    with assms(3) show "roomId doc \<noteq> rid" by (auto simp: room_reviews_def filter_empty_conv)
  qed
  have empty: "rating_values (room_reviews rid s) = []" by (simp add: assms(3) rating_values_def)
  from submit_reviews_run [OF assms(1,2,6) fresh] assms(3,4) empty
  obtain s' where s': "submit_reviews rid subs s = (Inr (), s')"
      "length (room_reviews rid s') = length subs"
      "sum_list (rating_values (room_reviews rid s')) = sum_list ?V"
      "set (map review_rating (room_reviews rid s')) = set ?R"
      "summary rid s' = Some (Some (parseFloat_toFixed1 (averageRating (room_reviews rid s'))),
                    Some (snd (tally (room_reviews rid s'))))"
    by auto
  let ?L = "room_reviews rid s'"
  have ne: "?L \<noteq> []" using s'(2) assms(4) by auto
  have range: "\<forall>r\<in>set ?R. r \<in> {Finite 1, Finite 2, Finite 3, Finite 4, Finite 5}"
    using assms(7) by auto
  have good: "\<forall>doc\<in>set ?L. whole_rating (review_rating doc)"
  proof
    fix doc assume "doc \<in> set ?L"
    then have "review_rating doc \<in> set (map review_rating ?L)" by simp
    with s'(4) range
    have "review_rating doc \<in> {Finite 1, Finite 2, Finite 3, Finite 4, Finite 5}" by blast
    then show "whole_rating (review_rating doc)"
      by (auto simp: whole_numeral whole_1)
  qed
  have "\<forall>r\<in>set ?V. r \<le> 5" using assms(7) by fastforce
  then have "sum_list ?V \<le> 5 * of_nat (length ?V)" by (rule sum_list_le_5)
  moreover have "(of_nat (length subs) :: rat) \<le> 2 ^ 40"
  proof -
    have "(of_nat (length subs) :: rat) \<le> of_nat (2 ^ 40)" using assms(5) by (simp only: of_nat_le_iff)
    then show ?thesis by simp
  qed
  ultimately have small: "20 * sum_list (rating_values ?L) < 2 ^ 53" by (simp add: s'(3))
  have len: "int (length ?L) \<le> 2 ^ 53"
  proof -
    have "int (length subs) \<le> int (2 ^ 40)" using assms(5) by (simp only: of_nat_le_iff)
    then show ?thesis by (simp add: s'(2))
  qed
  have cnt: "snd (tally ?L) = Finite (of_nat (length subs))"
    using tally_count [OF len] by (simp add: s'(2))
  have "length (rating_values ?L) = length subs" by (simp add: rating_values_def s'(2))
  then have m: "mean (rating_values ?L) = mean ?V" by (simp add: mean_def s'(3))
  have summ: "summary rid s' = Some (Some (parseFloat_toFixed1 (averageRating ?L)),
      Some (Finite (of_nat (length subs))))"
    using s'(5) by (simp only: cnt)
  show ?thesis
    by (intro exI [of _ s'] exI [of _ ?L] conjI s'(1) summ ne good small len m)
qed


text \<open>
  The room lookup and the loop of \<^verbatim>\<open>getFavorites\<close> under any outages: a lookup that the
  backend rejects and a room that does not exist add nothing, and nothing collected is lost.
\<close>

lemma getRoomById_any:
  "getRoomById k s =
     (case outages s of
        [] \<Rightarrow> (case room_of s k of [] \<Rightarrow> Inl RoomNotFound | room # _ \<Rightarrow> Inr room, s)
      | down # rest \<Rightarrow>
          (if down then Inl BackendFailure
           else (case room_of s k of [] \<Rightarrow> Inl RoomNotFound | room # _ \<Rightarrow> Inr room),
           s\<lparr>outages := rest\<rparr>))"
  by (simp add: getRoomById_def getDoc_rooms_def backend_def room_of_def
      split: list.split option.split)

lemma room_of_outages: "room_of (s\<lparr>outages := fates\<rparr>) k = room_of s k"
  by (simp add: room_of_def)

lemma room_of_cases: "room_of s k = [] \<or> (\<exists>room. room_of s k = [room])"
  by (simp add: room_of_def split: option.split)

lemma favorite_rooms_lookups:
  "fst (favorite_rooms acc ks s) =
     acc @ concat (map (\<lambda>(k, down). if down then [] else room_of s k) (lookups (outages s) ks))"
proof (induction ks arbitrary: acc s)
  case Nil
  show ?case by simp
next
  case (Cons k ks)
  show ?case
  proof (cases "outages s")
    case Nil
    from room_of_cases [of s k] show ?thesis
    proof
      assume "room_of s k = []"
      then show ?thesis using Nil Cons.IH [of acc s] by (simp add: getRoomById_any)
    next
      assume "\<exists>room. room_of s k = [room]"
      then obtain room where "room_of s k = [room]" by blast
      then show ?thesis using Nil Cons.IH [of "acc @ [room]" s] by (simp add: getRoomById_any)
    qed
  next
    case (Cons down rest)
    let ?s1 = "s\<lparr>outages := rest\<rparr>"
    have o: "outages ?s1 = rest" by simp
    note ih = Cons.IH [of _ ?s1, unfolded o room_of_outages]
    show ?thesis
    proof (cases down)
      case True
      then show ?thesis using Cons ih [of acc] by (simp add: getRoomById_any)
    next
      case False
      from room_of_cases [of s k] show ?thesis
      proof
        assume "room_of s k = []"
        then show ?thesis using Cons False ih [of acc] by (simp add: getRoomById_any)
      next
        assume "\<exists>room. room_of s k = [room]"
        then obtain room where "room_of s k = [room]" by blast
        then show ?thesis using Cons False ih [of "acc @ [room]"] by (simp add: getRoomById_any)
      qed
    qed
  qed
qed

lemma lookups_all_up:
  "True \<notin> set (take (length ks) fates) \<Longrightarrow> lookups fates ks = map (\<lambda>k. (k, False)) ks"
  by (induction fates ks rule: lookups.induct) auto

text \<open>The result of \<^verbatim>\<open>getFavorites\<close> once the favourites query is answered.\<close>

lemma getFavorites_lookups:
  assumes "currentUser s = Some u" "reachable 1 s"
  shows "fst (getFavorites s)
       = Inr (concat (map (\<lambda>(k, down). if down then [] else room_of s k)
                (lookups (tl (outages s)) (map fav_roomId (user_favorites (uid u) s)))))"
proof -
  let ?s1 = "s\<lparr>outages := tl (outages s)\<rparr>"
  let ?ids = "map fav_roomId (user_favorites (uid u) s)"
  have r: "reachable (Suc 0) s" using assms(2) by simp
  have q: "getDocs_favorites (uid u) s = (Inr (user_favorites (uid u) s), ?s1)"
    by (simp add: getDocs_favorites_def backend_ok(1) [OF r] user_favorites_def)
  have g: "fst (getFavorites s) = Inr (fst (favorite_rooms [] ?ids ?s1))"
    by (simp add: getFavorites_def assms(1) q split_beta Let_def)
  show ?thesis
    unfolding g favorite_rooms_lookups room_of_outages by simp
qed

section \<open>The claims\<close>

subsection \<open>Aggregation of reviews\<close>

text \<open>
  C1, as stated, fails. Seventeen reviewers rate the room 1 and three rate it 2. The mean
  is 23/20 = 1.15, which rounds to 1.2; the quotient computed in binary64 lies just below
  1.15, and the room's rating becomes the double of 1.1.
\<close>

theorem distinct_reviewers_tie_counterexample:
  "summary ''room1'' (snd (submit_reviews ''room1'' twenty store0))
     = Some (Some (Finite (to_double (11 / 10))), Some (Finite 20))
   \<and> round_half_up1 (mean (map (\<lambda>x. finite_value (fst (snd x))) twenty)) = 12 / 10
   \<and> to_double (11 / 10) \<noteq> to_double (12 / 10) \<and> to_double (11 / 10) \<noteq> 12 / 10
   \<and> summary ''room1'' (snd (submit_reviews ''room1'' twenty store0))
     \<noteq> Some (Some (Finite (to_double (round_half_up1
            (mean (map (\<lambda>x. finite_value (fst (snd x))) twenty))))), Some (Finite 20))"
proof -
  have h1: "outages store0 = []" by (simp add: store0_def)
  have h2: "map_of (rooms_coll store0) ''room1'' = Some loft" by (simp add: store0_def)
  have h3: "room_reviews ''room1'' store0 = []" by (simp add: room_reviews_def store0_def)
  have h4: "twenty \<noteq> []" by (simp add: twenty_def)
  have h5: "length twenty \<le> 2 ^ 40" by (simp add: twenty_def)
  have h6: "distinct (map (\<lambda>x. uid (fst x)) twenty)" by (simp add: twenty_def reviewer_def)
  have h7: "\<forall>x\<in>set twenty. fst (snd x) \<in> {Finite 1, Finite 2, Finite 3, Finite 4, Finite 5}"
    by (simp add: twenty_def reviewer_def)
  have m: "mean (map (\<lambda>x. finite_value (fst (snd x))) twenty) = 23 / 20"
    by (simp add: mean_def twenty_def reviewer_def)
  have n: "of_nat (length twenty) = (20::rat)" by (simp add: twenty_def)
  from submitted_reviews_aggregate [OF h1 h2 h3 h4 h5 h6 h7]
  obtain s' L where run: "submit_reviews ''room1'' twenty store0 = (Inr (), s')"
    and summ: "summary ''room1'' s'
        = Some (Some (parseFloat_toFixed1 (averageRating L)), Some (Finite (of_nat (length twenty))))"
    and L: "L \<noteq> []" "\<forall>doc\<in>set L. whole_rating (review_rating doc)"
      "20 * sum_list (rating_values L) < 2 ^ 53" "int (length L) \<le> 2 ^ 53"
    and mL: "mean (rating_values L) = mean (map (\<lambda>x. finite_value (fst (snd x))) twenty)"
    by blast
  have d: "to_double (round_half_up1 (to_double (23 / 20))) = to_double (11 / 10)" by code_simp
  have "parseFloat_toFixed1 (averageRating L)
      = Finite (to_double (round_half_up1 (to_double (mean (rating_values L)))))"
    using L by (rule written_rating_double)
  then have w: "parseFloat_toFixed1 (averageRating L) = Finite (to_double (11 / 10))"
    by (simp only: mL m d)
  have a: "summary ''room1'' (snd (submit_reviews ''room1'' twenty store0))
     = Some (Some (Finite (to_double (11 / 10))), Some (Finite 20))"
    by (simp add: run summ w n)
  have b: "round_half_up1 (23 / 20) = 12 / 10" by code_simp
  have c: "to_double (11 / 10) \<noteq> to_double (12 / 10)" "to_double (11 / 10) \<noteq> 12 / 10"
    by code_simp+
  show ?thesis unfolding a m b using c by simp
qed

text \<open>
  C1, as amended. Reviewers with distinct uids submit ratings from 1 to 5, one call of
  \<^verbatim>\<open>addReview\<close> after the other, for an existing room without reviews and with the
  backend up. Every call succeeds; afterwards the room's review count is the number of
  reviewers, and its rating is the mean of the ratings as divided in binary64, rounded half
  up to one decimal and stored as the nearest double. That is the mean itself rounded half
  up whenever the mean is not halfway between two tenths or is a double.
\<close>

theorem distinct_reviewers_summary:
  assumes "outages s = []" "map_of (rooms_coll s) rid = Some d" "room_reviews rid s = []"
    and "subs \<noteq> []" "length subs \<le> 2 ^ 40"
    and "distinct (map (\<lambda>x. uid (fst x)) subs)"
    and "\<forall>x\<in>set subs. fst (snd x) \<in> {Finite 1, Finite 2, Finite 3, Finite 4, Finite 5}"
  shows "fst (submit_reviews rid subs s) = Inr ()
       \<and> summary rid (snd (submit_reviews rid subs s))
           = Some (Some (Finite (to_double (round_half_up1
                      (to_double (mean (map (\<lambda>x. finite_value (fst (snd x))) subs)))))),
                   Some (Finite (of_nat (length subs))))
       \<and> (\<not> tie (mean (map (\<lambda>x. finite_value (fst (snd x))) subs))
            \<or> to_double (mean (map (\<lambda>x. finite_value (fst (snd x))) subs))
                = mean (map (\<lambda>x. finite_value (fst (snd x))) subs)
          \<longrightarrow> summary rid (snd (submit_reviews rid subs s))
                = Some (Some (Finite (to_double (round_half_up1
                           (mean (map (\<lambda>x. finite_value (fst (snd x))) subs))))),
                        Some (Finite (of_nat (length subs)))))"
proof -
  let ?V = "map (\<lambda>x. finite_value (fst (snd x))) subs"
  from submitted_reviews_aggregate [OF assms(1-7)]
  obtain s' L where run: "submit_reviews rid subs s = (Inr (), s')"
    and summ: "summary rid s'
        = Some (Some (parseFloat_toFixed1 (averageRating L)), Some (Finite (of_nat (length subs))))"
    and L: "L \<noteq> []" "\<forall>doc\<in>set L. whole_rating (review_rating doc)"
      "20 * sum_list (rating_values L) < 2 ^ 53" "int (length L) \<le> 2 ^ 53"
    and m: "mean (rating_values L) = mean ?V"
    by blast
  have dbl: "parseFloat_toFixed1 (averageRating L)
      = Finite (to_double (round_half_up1 (to_double (mean ?V))))"
    using written_rating_double [OF L] by (simp only: m)
  have "parseFloat_toFixed1 (averageRating L) = Finite (to_double (round_half_up1 (mean ?V)))"
    if "\<not> tie (mean ?V) \<or> to_double (mean ?V) = mean ?V"
    using written_rating_half_up [OF L that [folded m]] by (simp only: m)
  with dbl show ?thesis by (simp add: run summ)
qed

theorem distinct_reviewers_summary_witness:
  "outages store0 = [] \<and> map_of (rooms_coll store0) ''room1'' = Some loft
   \<and> room_reviews ''room1'' store0 = []
   \<and> distinct (map (\<lambda>x. uid (fst x))
        [reviewer ''a'' (Finite 5), reviewer ''b'' (Finite 4), reviewer ''c'' (Finite 3)])
   \<and> map (\<lambda>x. fst (snd x))
        [reviewer ''a'' (Finite 5), reviewer ''b'' (Finite 4), reviewer ''c'' (Finite 3)]
       = [Finite 5, Finite 4, Finite 3]
   \<and> \<not> tie (mean (map (\<lambda>x. finite_value (fst (snd x)))
        [reviewer ''a'' (Finite 5), reviewer ''b'' (Finite 4), reviewer ''c'' (Finite 3)]))
   \<and> fst (submit_reviews ''room1''
        [reviewer ''a'' (Finite 5), reviewer ''b'' (Finite 4), reviewer ''c'' (Finite 3)] store0) = Inr ()
   \<and> summary ''room1'' (snd (submit_reviews ''room1''
        [reviewer ''a'' (Finite 5), reviewer ''b'' (Finite 4), reviewer ''c'' (Finite 3)] store0))
       = Some (Some (Finite 4), Some (Finite 3))"
proof -
  let ?subs = "[reviewer ''a'' (Finite 5), reviewer ''b'' (Finite 4), reviewer ''c'' (Finite 3)]"
  let ?V = "map (\<lambda>x. finite_value (fst (snd x))) ?subs"
  have h1: "outages store0 = []" by (simp add: store0_def)
  have h2: "map_of (rooms_coll store0) ''room1'' = Some loft" by (simp add: store0_def)
  have h3: "room_reviews ''room1'' store0 = []" by (simp add: room_reviews_def store0_def)
  have h4: "?subs \<noteq> []" by simp
  have h5: "length ?subs \<le> 2 ^ 40" by simp
  have h6: "distinct (map (\<lambda>x. uid (fst x)) ?subs)" by (simp add: reviewer_def)
  have h7: "\<forall>x\<in>set ?subs. fst (snd x) \<in> {Finite 1, Finite 2, Finite 3, Finite 4, Finite 5}"
    by (simp add: reviewer_def)
  have m: "mean ?V = 4" by (simp add: mean_def reviewer_def)
  have t: "\<not> tie 4" by code_simp
  have v: "to_double (round_half_up1 4) = 4" by code_simp
  have t': "\<not> tie (mean ?V)" unfolding m by (rule t)
  from distinct_reviewers_summary [OF h1 h2 h3 h4 h5 h6 h7] t'
  have "fst (submit_reviews ''room1'' ?subs store0) = Inr ()
       \<and> summary ''room1'' (snd (submit_reviews ''room1'' ?subs store0))
           = Some (Some (Finite (to_double (round_half_up1 (mean ?V)))), Some (Finite (of_nat (length ?subs))))"
    by blast
  then have res: "fst (submit_reviews ''room1'' ?subs store0) = Inr ()
       \<and> summary ''room1'' (snd (submit_reviews ''room1'' ?subs store0))
           = Some (Some (Finite 4), Some (Finite 3))"
    unfolding m v by simp
  have r: "map (\<lambda>x. fst (snd x)) ?subs = [Finite 5, Finite 4, Finite 3]" by (simp add: reviewer_def)
  show ?thesis using h1 h2 h3 h6 r t' res by blast
qed

text \<open>
  C2, as stated, fails. The room has eleven reviews of 1 and nine of 2. The exact quotient
  is 29/20 = 1.45, which rounds half up to 1.5; the binary64 quotient lies just below
  1.45, and \<^verbatim>\<open>updateRoomRating\<close> writes the double of 1.4.
\<close>

theorem written_average_tie_counterexample:
  "map_option fst (summary ''room1'' (snd (updateRoomRating ''room1'' store20)))
     = Some (Some (Finite (to_double (14 / 10))))
   \<and> round_half_up1 (mean (rating_values (room_reviews ''room1'' store20))) = 15 / 10
   \<and> to_double (14 / 10) \<noteq> to_double (15 / 10) \<and> to_double (14 / 10) \<noteq> 15 / 10
   \<and> map_option fst (summary ''room1'' (snd (updateRoomRating ''room1'' store20)))
     \<noteq> Some (Some (Finite (to_double (round_half_up1
            (mean (rating_values (room_reviews ''room1'' store20)))))))"
proof -
  let ?L = "room_reviews ''room1'' store20"
  have h1: "reachable 2 store20" by (simp add: reachable_def store20_def store0_def)
  have h2: "map_of (rooms_coll store20) ''room1'' = Some loft" by (simp add: store20_def store0_def)
  have R: "map review_rating ?L = replicate 11 (Finite 1) @ replicate 9 (Finite 2)"
    by (simp add: room_reviews_def store20_def review_by_def eval_nat_numeral)
  have V: "rating_values ?L = map finite_value (map review_rating ?L)"
    by (simp add: rating_values_def)
  have len: "length ?L = 20" using arg_cong [OF R, of length] by simp
  have h3: "?L \<noteq> []" using len by auto
  have "\<forall>r\<in>set (map review_rating ?L). whole_rating r"
    unfolding R by (auto simp: whole_numeral whole_1)
  then have h4: "\<forall>doc\<in>set ?L. whole_rating (review_rating doc)" by simp
  have S: "sum_list (rating_values ?L) = 29" unfolding V R by (simp add: sum_list_replicate)
  have h5: "20 * sum_list (rating_values ?L) < 2 ^ 53" by (simp add: S)
  have h6: "int (length ?L) \<le> 2 ^ 53" by (simp add: len)
  have lenV: "length (rating_values ?L) = 20" by (simp add: rating_values_def len)
  have m: "mean (rating_values ?L) = 29 / 20" by (simp add: mean_def S lenV)
  have d: "to_double (round_half_up1 (to_double (29 / 20))) = to_double (14 / 10)" by code_simp
  have "parseFloat_toFixed1 (averageRating ?L)
      = Finite (to_double (round_half_up1 (to_double (mean (rating_values ?L)))))"
    using h3 h4 h5 h6 by (rule written_rating_double)
  then have w: "parseFloat_toFixed1 (averageRating ?L) = Finite (to_double (14 / 10))"
    by (simp only: m d)
  have a: "map_option fst (summary ''room1'' (snd (updateRoomRating ''room1'' store20)))
     = Some (Some (Finite (to_double (14 / 10))))"
    by (simp add: updateRoomRating_summary [OF h1 h2] w)
  have b: "round_half_up1 (29 / 20) = 15 / 10" by code_simp
  have c: "to_double (14 / 10) \<noteq> to_double (15 / 10)" "to_double (14 / 10) \<noteq> 15 / 10"
    by code_simp+
  show ?thesis unfolding a m b using c by simp
qed

text \<open>
  C2, as amended. For an existing room whose reviews are not empty and have whole,
  non-negative ratings, with the backend up, \<^verbatim>\<open>updateRoomRating\<close> succeeds and writes the
  quotient of sum and count as computed in binary64, rounded half up to one decimal and
  stored as the nearest double. This is the exact quotient rounded half up whenever the
  exact quotient is not halfway between two tenths or is a double itself.
\<close>

theorem written_average_rounding:
  assumes "reachable 2 s" "map_of (rooms_coll s) rid = Some d" "room_reviews rid s \<noteq> []"
    and "\<forall>doc\<in>set (room_reviews rid s). whole_rating (review_rating doc)"
    and "20 * sum_list (rating_values (room_reviews rid s)) < 2 ^ 53"
    and "int (length (room_reviews rid s)) \<le> 2 ^ 53"
  shows "fst (updateRoomRating rid s) = Inr ()
       \<and> map_option fst (summary rid (snd (updateRoomRating rid s)))
           = Some (Some (Finite (to_double (round_half_up1
                (to_double (mean (rating_values (room_reviews rid s))))))))
       \<and> (\<not> tie (mean (rating_values (room_reviews rid s)))
            \<or> to_double (mean (rating_values (room_reviews rid s)))
                = mean (rating_values (room_reviews rid s))
          \<longrightarrow> map_option fst (summary rid (snd (updateRoomRating rid s)))
                = Some (Some (Finite (to_double (round_half_up1
                     (mean (rating_values (room_reviews rid s))))))))"
proof -
  let ?L = "room_reviews rid s"
  have w: "map_option fst (summary rid (snd (updateRoomRating rid s)))
      = Some (Some (parseFloat_toFixed1 (averageRating ?L)))"
    by (simp add: updateRoomRating_summary [OF assms(1,2)])
  have ok: "fst (updateRoomRating rid s) = Inr ()"
    by (simp add: updateRoomRating_ok [OF assms(1,2)])
  have dbl: "parseFloat_toFixed1 (averageRating ?L)
      = Finite (to_double (round_half_up1 (to_double (mean (rating_values ?L)))))"
    using assms(3-6) by (rule written_rating_double)
  have "parseFloat_toFixed1 (averageRating ?L)
      = Finite (to_double (round_half_up1 (mean (rating_values ?L))))"
    if "\<not> tie (mean (rating_values ?L))
        \<or> to_double (mean (rating_values ?L)) = mean (rating_values ?L)"
    using assms(3-6) that by (rule written_rating_half_up)
  with ok dbl show ?thesis unfolding w by simp
qed

theorem written_average_rounding_witness:
  "reachable 2 store2 \<and> map_of (rooms_coll store2) ''room1'' = Some loft
   \<and> map review_rating (room_reviews ''room1'' store2) = [Finite 5, Finite 4]
   \<and> \<not> tie (mean (rating_values (room_reviews ''room1'' store2)))
   \<and> fst (updateRoomRating ''room1'' store2) = Inr ()
   \<and> map_option fst (summary ''room1'' (snd (updateRoomRating ''room1'' store2)))
       = Some (Some (Finite (9 / 2)))"
proof -
  let ?L = "room_reviews ''room1'' store2"
  have h1: "reachable 2 store2" by (simp add: reachable_def store2_def store0_def)
  have h2: "map_of (rooms_coll store2) ''room1'' = Some loft" by (simp add: store2_def store0_def)
  have L: "?L = [snd (review_by ''a'' (Finite 5)), snd (review_by ''b'' (Finite 4))]"
    by (simp add: room_reviews_def store2_def review_by_def)
  have R: "map review_rating ?L = [Finite 5, Finite 4]" by (simp add: L review_by_def)
  have V: "rating_values ?L = [5, 4]" by (simp add: rating_values_def L review_by_def)
  have h3: "?L \<noteq> []" by (simp add: L)
  have h4: "\<forall>doc\<in>set ?L. whole_rating (review_rating doc)"
    by (simp add: L review_by_def whole_numeral)
  have h5: "20 * sum_list (rating_values ?L) < 2 ^ 53" by (simp add: V)
  have h6: "int (length ?L) \<le> 2 ^ 53" by (simp add: L)
  have m: "mean (rating_values ?L) = 9 / 2" by (simp add: V mean_def)
  have t: "\<not> tie (9 / 2)" by code_simp
  have v: "to_double (round_half_up1 (9 / 2)) = 9 / 2" by code_simp
  have t': "\<not> tie (mean (rating_values ?L))" unfolding m by (rule t)
  from written_average_rounding [OF h1 h2 h3 h4 h5 h6] t'
  have "fst (updateRoomRating ''room1'' store2) = Inr ()
     \<and> map_option fst (summary ''room1'' (snd (updateRoomRating ''room1'' store2)))
        = Some (Some (Finite (to_double (round_half_up1 (mean (rating_values ?L))))))"
    by blast
  then have res: "fst (updateRoomRating ''room1'' store2) = Inr ()
     \<and> map_option fst (summary ''room1'' (snd (updateRoomRating ''room1'' store2)))
        = Some (Some (Finite (9 / 2)))"
    unfolding m v by simp
  show ?thesis using h1 h2 R t' res by blast
qed

text \<open>
  C3. When a signed-in reviewer calls \<^verbatim>\<open>addReview\<close> twice for the same room, the second
  call writes under the same key: the review collection has the same keys as after the
  first call, the document under the key holds the new rating, the review count on the
  room is the same as after the first call, and the ratings that the recomputation reads
  are those of the first call with the old rating replaced by the new one. The room's
  rating is the average of these; for whole, non-negative ratings it is their mean as
  divided in binary64, rounded half up to one decimal.
\<close>

theorem second_review_overwrites:
  fixes s :: store and rid c1 c2 :: string and r1 r2 :: number
  assumes "currentUser s = Some u" "reachable 6 s" "map_of (rooms_coll s) rid = Some d"
  defines "s1 \<equiv> snd (addReview rid r1 c1 s)"
  defines "s2 \<equiv> snd (addReview rid r2 c2 s1)"
  shows "fst (addReview rid r1 c1 s) = Inr () \<and> fst (addReview rid r2 c2 s1) = Inr ()
       \<and> map fst (reviews_coll s2) = map fst (reviews_coll s1)
       \<and> map_option review_rating (map_of (reviews_coll s2) (review_key (uid u) rid)) = Some r2
       \<and> map_option snd (summary rid s2) = map_option snd (summary rid s1)
       \<and> (\<exists>i < length (room_reviews rid s1).
             map review_rating (room_reviews rid s1) ! i = r1
             \<and> map review_rating (room_reviews rid s2)
                 = (map review_rating (room_reviews rid s1))[i := r2]
             \<and> ((\<forall>r\<in>set ((map review_rating (room_reviews rid s1))[i := r2]). whole_rating r)
                  \<and> 20 * sum_list (map finite_value
                            ((map review_rating (room_reviews rid s1))[i := r2])) < 2 ^ 53
                  \<and> int (length (room_reviews rid s1)) \<le> 2 ^ 53
                \<longrightarrow> map_option fst (summary rid s2)
                      = Some (Some (Finite (to_double (round_half_up1 (to_double (mean
                          (map finite_value
                             ((map review_rating (room_reviews rid s1))[i := r2])))))))))) 
       \<and> map_option fst (summary rid s2)
           = Some (Some (parseFloat_toFixed1 (averageRating (room_reviews rid s2))))"
proof -
  let ?k = "review_key (uid u) rid"
  let ?doc1 = "\<lparr>userId = uid u, roomId = rid, userName = userName_of u, review_rating = r1,
      comment = c1, review_createdAt = serverTime s, review_updatedAt = serverTime s\<rparr>"
  have r6: "reachable (Suc (Suc (Suc (Suc (Suc (Suc 0)))))) s"
    using assms(2) by (simp add: eval_nat_numeral)
  have r3: "reachable 3 s"
    using r6 by (simp add: eval_nat_numeral reachable_less)
  obtain t1 where t1: "addReview rid r1 c1 s = (Inr (), t1)"
      "reviews_coll t1 = upsert ?k ?doc1 (reviews_coll s)"
      "outages t1 = tl (tl (tl (outages s)))" "currentUser t1 = Some u"
      "serverTime t1 = Suc (Suc (serverTime s))"
      "summary rid t1 = Some (Some (parseFloat_toFixed1 (averageRating (room_reviews rid t1))),
           Some (snd (tally (room_reviews rid t1))))"
    by (simp add: addReview_ok [OF assms(1) r3 assms(3)] assms(1) summary_def map_of_upsert
        room_reviews_def)
  have s1: "s1 = t1" by (simp add: s1_def t1(1))
  from t1(6) obtain d1 where d1: "map_of (rooms_coll t1) rid = Some d1"
    by (auto simp: summary_def)
  have "reachable (Suc (Suc (Suc (Suc (Suc 0))))) (s\<lparr>outages := tl (outages s)\<rparr>)"
    using r6 by (rule reachable_tl) simp
  then have "reachable (Suc (Suc (Suc (Suc 0)))) (s\<lparr>outages := tl (tl (outages s))\<rparr>)"
    by (rule reachable_tl) simp
  then have "reachable (Suc (Suc (Suc 0))) t1" by (rule reachable_tl) (simp add: t1(3))
  then have r3': "reachable 3 t1" by (simp add: eval_nat_numeral)
  let ?doc2 = "\<lparr>userId = uid u, roomId = rid, userName = userName_of u, review_rating = r2,
      comment = c2, review_createdAt = serverTime t1, review_updatedAt = serverTime t1\<rparr>"
  obtain t2 where t2: "addReview rid r2 c2 t1 = (Inr (), t2)"
      "reviews_coll t2 = upsert ?k ?doc2 (reviews_coll t1)"
      "summary rid t2 = Some (Some (parseFloat_toFixed1 (averageRating (room_reviews rid t2))),
           Some (snd (tally (room_reviews rid t2))))"
    by (simp add: addReview_ok [OF t1(4) r3' d1] summary_def map_of_upsert room_reviews_def)
  have s2: "s2 = t2" by (simp add: s2_def s1 t2(1))
  have old: "map_of (reviews_coll t1) ?k = Some ?doc1" by (simp add: t1(2) map_of_upsert)
  have keys: "map fst (reviews_coll t2) = map fst (reviews_coll t1)"
    unfolding t2(2) using old by (rule upsert_keys)
  have new: "map_option review_rating (map_of (reviews_coll t2) ?k) = Some r2"
    by (simp add: t2(2) map_of_upsert)
  have "roomId ?doc2 = rid" "roomId ?doc1 = rid" by simp_all
  from upsert_room_docs_old [OF this(1) old this(2)]
  obtain i where i: "i < length (room_reviews rid t1)" "room_reviews rid t1 ! i = ?doc1"
    "room_reviews rid t2 = (room_reviews rid t1)[i := ?doc2]"
    unfolding room_reviews_def t2(2) by blast
  let ?R1 = "map review_rating (room_reviews rid t1)"
  have ratings: "?R1 ! i = r1" "map review_rating (room_reviews rid t2) = ?R1[i := r2]"
    using i by (simp_all add: map_update)
  have len: "length (room_reviews rid t2) = length (room_reviews rid t1)" by (simp add: i(3))
  then have "snd (tally (room_reviews rid t2)) = snd (tally (room_reviews rid t1))"
    by (rule tally_count_length)
  then have count: "map_option snd (summary rid t2) = map_option snd (summary rid t1)"
    by (simp add: t1(6) t2(3))
  have avg: "map_option fst (summary rid t2)
      = Some (Some (parseFloat_toFixed1 (averageRating (room_reviews rid t2))))"
    by (simp add: t2(3))
  have vals: "rating_values (room_reviews rid t2) = map finite_value (?R1[i := r2])"
    by (simp add: rating_values_def ratings(2) [symmetric])
  have exact: "map_option fst (summary rid t2)
       = Some (Some (Finite (to_double (round_half_up1 (to_double (mean
                          (map finite_value (?R1[i := r2]))))))))"
    if c: "(\<forall>r\<in>set (?R1[i := r2]). whole_rating r)
         \<and> 20 * sum_list (map finite_value (?R1[i := r2])) < 2 ^ 53
         \<and> int (length (room_reviews rid t1)) \<le> 2 ^ 53"
  proof -
    have ne: "room_reviews rid t2 \<noteq> []" using i(1) len by auto
    have "\<forall>r\<in>set (map review_rating (room_reviews rid t2)). whole_rating r"
      using c unfolding ratings(2) by blast
    then have good: "\<forall>doc\<in>set (room_reviews rid t2). whole_rating (review_rating doc)" by simp
    have small: "20 * sum_list (rating_values (room_reviews rid t2)) < 2 ^ 53"
      using c unfolding vals by blast
    have l: "int (length (room_reviews rid t2)) \<le> 2 ^ 53" using c by (simp add: len)
    from written_rating_double [OF ne good small l] show ?thesis
      by (simp only: avg vals)
  qed
  have ex: "\<exists>i < length (room_reviews rid t1).
             ?R1 ! i = r1 \<and> map review_rating (room_reviews rid t2) = ?R1[i := r2]
             \<and> ((\<forall>r\<in>set (?R1[i := r2]). whole_rating r)
                  \<and> 20 * sum_list (map finite_value (?R1[i := r2])) < 2 ^ 53
                  \<and> int (length (room_reviews rid t1)) \<le> 2 ^ 53
                \<longrightarrow> map_option fst (summary rid t2)
                      = Some (Some (Finite (to_double (round_half_up1 (to_double (mean
                          (map finite_value (?R1[i := r2])))))))))"
    using i(1) ratings exact by blast
  have f1: "fst (addReview rid r1 c1 s) = Inr ()" by (simp add: t1(1))
  have f2: "fst (addReview rid r2 c2 t1) = Inr ()" by (simp add: t2(1))
  show ?thesis
    unfolding s2 s1 by (intro conjI f1 f2 keys new count ex avg)
qed

theorem second_review_overwrites_witness:
  "currentUser (store0\<lparr>currentUser := Some ravi\<rparr>) = Some ravi
   \<and> reachable 6 (store0\<lparr>currentUser := Some ravi\<rparr>)
   \<and> map_of (rooms_coll (store0\<lparr>currentUser := Some ravi\<rparr>)) ''room1'' = Some loft
   \<and> map fst (reviews_coll (snd (addReview ''room1'' (Finite 2) ''meh''
          (snd (addReview ''room1'' (Finite 4) ''ok'' (store0\<lparr>currentUser := Some ravi\<rparr>))))))
       = [''ravi_room1'']
   \<and> map review_rating (room_reviews ''room1'' (snd (addReview ''room1'' (Finite 2) ''meh''
          (snd (addReview ''room1'' (Finite 4) ''ok'' (store0\<lparr>currentUser := Some ravi\<rparr>))))))
       = [Finite 2]
   \<and> summary ''room1'' (snd (addReview ''room1'' (Finite 2) ''meh''
          (snd (addReview ''room1'' (Finite 4) ''ok'' (store0\<lparr>currentUser := Some ravi\<rparr>)))))
       = Some (Some (Finite 2), Some (Finite 1))"
proof -
  let ?s = "store0\<lparr>currentUser := Some ravi\<rparr>"
  let ?s1 = "snd (addReview ''room1'' (Finite 4) ''ok'' ?s)"
  let ?s2 = "snd (addReview ''room1'' (Finite 2) ''meh'' ?s1)"
  let ?R1 = "map review_rating (room_reviews ''room1'' ?s1)"
  have h1: "currentUser ?s = Some ravi" by simp
  have h2: "reachable 6 ?s" by (simp add: reachable_def store0_def)
  have h3: "map_of (rooms_coll ?s) ''room1'' = Some loft" by (simp add: store0_def)
  have r3: "reachable 3 ?s" by (simp add: reachable_def store0_def)
  have keys1: "map fst (reviews_coll ?s1) = [''ravi_room1'']"
    unfolding addReview_ok [OF h1 r3 h3] by (simp add: store0_def ravi_def review_key_def)
  have docs1: "?R1 = [Finite 4]"
    unfolding addReview_ok [OF h1 r3 h3]
    by (simp add: room_reviews_def store0_def ravi_def review_key_def)
  have len1: "length (room_reviews ''room1'' ?s1) = 1"
    using arg_cong [OF docs1, of length] by simp
  have cnt1: "snd (tally (room_reviews ''room1'' ?s1)) = Finite 1"
    using tally_count [of "room_reviews ''room1'' ?s1"] by (simp add: len1)
  have count1: "map_option snd (summary ''room1'' ?s1) = Some (Some (Finite 1))"
    using cnt1 unfolding addReview_ok [OF h1 r3 h3]
    by (simp add: summary_def map_of_upsert room_reviews_def)
  have v: "to_double (round_half_up1 (to_double 2)) = 2" by code_simp
  from second_review_overwrites [OF h1 h2 h3, of "Finite 4" "''ok''" "Finite 2" "''meh''"]
  have keys: "map fst (reviews_coll ?s2) = map fst (reviews_coll ?s1)"
    and count: "map_option snd (summary ''room1'' ?s2) = map_option snd (summary ''room1'' ?s1)"
    and "\<exists>i < length (room_reviews ''room1'' ?s1).
             ?R1 ! i = Finite 4
             \<and> map review_rating (room_reviews ''room1'' ?s2) = ?R1[i := Finite 2]
             \<and> ((\<forall>r\<in>set (?R1[i := Finite 2]). whole_rating r)
                  \<and> 20 * sum_list (map finite_value (?R1[i := Finite 2])) < 2 ^ 53
                  \<and> int (length (room_reviews ''room1'' ?s1)) \<le> 2 ^ 53
                \<longrightarrow> map_option fst (summary ''room1'' ?s2)
                      = Some (Some (Finite (to_double (round_half_up1 (to_double (mean
                          (map finite_value (?R1[i := Finite 2])))))))))"
    by blast+
  then obtain i where i: "i < length (room_reviews ''room1'' ?s1)"
    "map review_rating (room_reviews ''room1'' ?s2) = ?R1[i := Finite 2]"
    "(\<forall>r\<in>set (?R1[i := Finite 2]). whole_rating r)
       \<and> 20 * sum_list (map finite_value (?R1[i := Finite 2])) < 2 ^ 53
       \<and> int (length (room_reviews ''room1'' ?s1)) \<le> 2 ^ 53
     \<longrightarrow> map_option fst (summary ''room1'' ?s2)
           = Some (Some (Finite (to_double (round_half_up1 (to_double (mean
                          (map finite_value (?R1[i := Finite 2]))))))))"
    by blast
  have i0: "i = 0" using i(1) len1 by simp
  have upd: "?R1[i := Finite 2] = [Finite 2]" by (simp add: docs1 i0)
  have docs2: "map review_rating (room_reviews ''room1'' ?s2) = [Finite 2]"
    using i(2) by (simp only: upd)
  have "map_option fst (summary ''room1'' ?s2)
           = Some (Some (Finite (to_double (round_half_up1 (to_double (mean [2]))))))"
    using i(3) by (simp only: upd len1) (simp add: whole_numeral)
  then have rating2: "map_option fst (summary ''room1'' ?s2) = Some (Some (Finite 2))"
    by (simp add: mean_def v)
  have "summary ''room1'' ?s2 = Some (Some (Finite 2), Some (Finite 1))"
    using rating2 count [unfolded count1] by (cases "summary ''room1'' ?s2") auto
  then show ?thesis
    using h1 h2 h3 docs2 keys [unfolded keys1] by blast
qed

subsection \<open>Failure paths\<close>

text \<open>
  C4. When nobody is signed in, \<^verbatim>\<open>addReview\<close> fails with the not-authenticated error and
  the store is exactly as before, its clock and its pending backend calls included: no
  review is written, no backend call is made and no rating is recomputed.
\<close>

theorem unauthenticated_review_rejected:
  "currentUser s = None \<Longrightarrow> addReview rid r c s = (Inl NotAuthenticated, s)"
  by (simp add: addReview_def)

theorem unauthenticated_review_rejected_witness:
  "currentUser store0 = None \<and> addReview ''room1'' (Finite 5) ''fine'' store0 = (Inl NotAuthenticated, store0)"
proof -
  have h: "currentUser store0 = None" by (simp add: store0_def)
  from unauthenticated_review_rejected [OF h] h show ?thesis by simp
qed

text \<open>
  C5. When the query for the reviews fails, \<^verbatim>\<open>updateRoomRating\<close> passes the error on and
  leaves every room document, with its rating, review count and update time, as it was.
\<close>

theorem failed_query_leaves_summary:
  "outages s = True # rest \<Longrightarrow>
     fst (updateRoomRating rid s) = Inl BackendFailure
     \<and> rooms_coll (snd (updateRoomRating rid s)) = rooms_coll s
     \<and> reviews_coll (snd (updateRoomRating rid s)) = reviews_coll s"
  by (simp add: updateRoomRating_def getDocs_reviews_def backend_down)

theorem failed_query_leaves_summary_witness:
  "outages (store20\<lparr>outages := [True]\<rparr>) = True # []
   \<and> fst (updateRoomRating ''room1'' (store20\<lparr>outages := [True]\<rparr>)) = Inl BackendFailure
   \<and> rooms_coll (snd (updateRoomRating ''room1'' (store20\<lparr>outages := [True]\<rparr>))) = [(''room1'', loft)]"
proof -
  have h: "outages (store20\<lparr>outages := [True]\<rparr>) = True # []" by simp
  from failed_query_leaves_summary [OF h, of "''room1''"] h show ?thesis
    by (simp add: store20_def store0_def)
qed

subsection \<open>Recomputation and validation\<close>

text \<open>
  C6. Two calls of \<^verbatim>\<open>updateRoomRating\<close> in a row on an existing room, with no review
  written in between, both succeed and write the same rating and the same review count;
  the reviews themselves are not touched.
\<close>

theorem recompute_twice_same_summary:
  assumes "reachable 4 s" "map_of (rooms_coll s) rid = Some d"
  shows "fst (updateRoomRating rid s) = Inr ()
       \<and> fst (updateRoomRating rid (snd (updateRoomRating rid s))) = Inr ()
       \<and> reviews_coll (snd (updateRoomRating rid s)) = reviews_coll s
       \<and> summary rid (snd (updateRoomRating rid (snd (updateRoomRating rid s))))
           = summary rid (snd (updateRoomRating rid s))"
proof -
  have r4: "reachable (Suc (Suc (Suc (Suc 0)))) s" using assms(1) by (simp add: eval_nat_numeral)
  then have r2: "reachable 2 s" by (simp add: eval_nat_numeral reachable_less)
  obtain s1 where s1: "updateRoomRating rid s = (Inr (), s1)" "reviews_coll s1 = reviews_coll s"
    "outages s1 = tl (tl (outages s))" and "\<exists>d1. map_of (rooms_coll s1) rid = Some d1"
    by (simp add: updateRoomRating_ok [OF r2 assms(2)] map_of_upsert)
  then obtain d1 where d1: "map_of (rooms_coll s1) rid = Some d1" by blast
  have "reachable (Suc (Suc (Suc 0))) (s\<lparr>outages := tl (outages s)\<rparr>)"
    using r4 by (rule reachable_tl) simp
  then have "reachable (Suc (Suc 0)) s1" by (rule reachable_tl) (simp add: s1(3))
  then have r2': "reachable 2 s1" by (simp add: eval_nat_numeral)
  have same: "room_reviews rid s1 = room_reviews rid s" by (simp add: room_reviews_def s1(2))
  have "summary rid s1 = Some (Some (parseFloat_toFixed1 (averageRating (room_reviews rid s))),
           Some (snd (tally (room_reviews rid s))))"
    using updateRoomRating_summary [OF r2 assms(2)] by (simp add: s1(1))
  then have "summary rid (snd (updateRoomRating rid s1)) = summary rid s1"
    by (simp add: updateRoomRating_summary [OF r2' d1] same)
  moreover have "fst (updateRoomRating rid s1) = Inr ()"
    by (simp add: updateRoomRating_ok [OF r2' d1])
  ultimately show ?thesis by (simp add: s1(1,2))
qed

theorem recompute_twice_same_summary_witness:
  "reachable 4 store20 \<and> map_of (rooms_coll store20) ''room1'' = Some loft
   \<and> fst (updateRoomRating ''room1'' store20) = Inr ()
   \<and> fst (updateRoomRating ''room1'' (snd (updateRoomRating ''room1'' store20))) = Inr ()
   \<and> reviews_coll (snd (updateRoomRating ''room1'' store20)) = reviews_coll store20
   \<and> summary ''room1'' (snd (updateRoomRating ''room1'' (snd (updateRoomRating ''room1'' store20))))
       = summary ''room1'' (snd (updateRoomRating ''room1'' store20))"
proof -
  have h1: "reachable 4 store20" by (simp add: reachable_def store20_def store0_def)
  have h2: "map_of (rooms_coll store20) ''room1'' = Some loft" by (simp add: store20_def store0_def)
  from recompute_twice_same_summary [OF h1 h2] h1 h2 show ?thesis by simp
qed

text \<open>
  C7. For a room without review documents, \<^verbatim>\<open>updateRoomRating\<close> writes the rating 0 and
  the review count 0 onto the room document.
\<close>

theorem no_reviews_zero_summary:
  assumes "reachable 2 s" "map_of (rooms_coll s) rid = Some d" "room_reviews rid s = []"
  shows "fst (updateRoomRating rid s) = Inr ()
       \<and> summary rid (snd (updateRoomRating rid s)) = Some (Some (Finite 0), Some (Finite 0))"
proof -
  have "averageRating [] = Finite 0" "snd (tally []) = Finite 0"
    by (simp_all add: averageRating_def tally_def)
  moreover have "parseFloat_toFixed1 (Finite 0) = Finite 0"
    by (simp add: toFixed1_def to_double_def)
  ultimately show ?thesis
    using updateRoomRating_summary [OF assms(1,2)] updateRoomRating_ok [OF assms(1,2)]
    by (simp add: assms(3))
qed

theorem no_reviews_zero_summary_witness:
  "reachable 2 store0 \<and> map_of (rooms_coll store0) ''room1'' = Some loft
   \<and> room_reviews ''room1'' store0 = []
   \<and> fst (updateRoomRating ''room1'' store0) = Inr ()
   \<and> summary ''room1'' (snd (updateRoomRating ''room1'' store0)) = Some (Some (Finite 0), Some (Finite 0))"
proof -
  have h1: "reachable 2 store0" by (simp add: reachable_def store0_def)
  have h2: "map_of (rooms_coll store0) ''room1'' = Some loft" by (simp add: store0_def)
  have h3: "room_reviews ''room1'' store0 = []" by (simp add: room_reviews_def store0_def)
  from no_reviews_zero_summary [OF h1 h2 h3] h1 h2 h3 show ?thesis by simp
qed



subsection \<open>Ownership and favourites\<close>

text \<open>
  C9. For a signed-in user and a room lookup that the backend answers: when the room
  document does not exist, \<^verbatim>\<open>updateRoom\<close> and \<^verbatim>\<open>deleteRoom\<close> fail with the room-not-found
  error; when it exists and its owner field is not the user's uid, they fail with their
  not-authorized error. In both cases the rooms collection is as before.
\<close>

theorem foreign_or_missing_room_untouched:
  assumes "currentUser s = Some u" "reachable 1 s"
    and "map_of (rooms_coll s) k = None
         \<or> (\<exists>d. map_of (rooms_coll s) k = Some d \<and> owner d \<noteq> Some (uid u))"
  shows "fst (updateRoom k patch s)
           = Inl (if map_of (rooms_coll s) k = None then RoomNotFound else NotAuthorizedUpdate)
       \<and> fst (deleteRoom k s)
           = Inl (if map_of (rooms_coll s) k = None then RoomNotFound else NotAuthorizedDelete)
       \<and> rooms_coll (snd (updateRoom k patch s)) = rooms_coll s
       \<and> rooms_coll (snd (deleteRoom k s)) = rooms_coll s"
proof -
  have r: "reachable (Suc 0) s" using assms(2) by simp
  from assms(3) show ?thesis
  proof
    assume "map_of (rooms_coll s) k = None"
    then show ?thesis
      by (simp add: updateRoom_def deleteRoom_def assms(1) getDoc_rooms_ok [OF r])
  next
    assume "\<exists>d. map_of (rooms_coll s) k = Some d \<and> owner d \<noteq> Some (uid u)"
    then obtain d where "map_of (rooms_coll s) k = Some d" "owner d \<noteq> Some (uid u)" by blast
    then show ?thesis
      by (simp add: updateRoom_def deleteRoom_def assms(1) getDoc_rooms_ok [OF r])
  qed
qed

theorem foreign_or_missing_room_untouched_witness:
  "currentUser store_fav = Some ravi \<and> reachable 1 store_fav
   \<and> map_of (rooms_coll store_fav) ''room1'' = Some loft \<and> owner loft \<noteq> Some (uid ravi)
   \<and> map_of (rooms_coll store_fav) ''gone'' = None
   \<and> fst (updateRoom ''room1'' retitle store_fav) = Inl NotAuthorizedUpdate
   \<and> fst (deleteRoom ''room1'' store_fav) = Inl NotAuthorizedDelete
   \<and> fst (updateRoom ''gone'' retitle store_fav) = Inl RoomNotFound
   \<and> fst (deleteRoom ''gone'' store_fav) = Inl RoomNotFound
   \<and> rooms_coll (snd (updateRoom ''room1'' retitle store_fav)) = rooms_coll store_fav
   \<and> rooms_coll (snd (deleteRoom ''room1'' store_fav)) = rooms_coll store_fav"
proof -
  have h1: "currentUser store_fav = Some ravi" by (simp add: store_fav_def)
  have h2: "reachable 1 store_fav" by (simp add: reachable_def store_fav_def store0_def)
  have h3: "map_of (rooms_coll store_fav) ''room1'' = Some loft" by (simp add: store_fav_def)
  have h4: "owner loft \<noteq> Some (uid ravi)" by (simp add: loft_def ravi_def)
  have h5: "map_of (rooms_coll store_fav) ''gone'' = None" by (simp add: store_fav_def)
  have a: "map_of (rooms_coll store_fav) ''room1'' = None
       \<or> (\<exists>d. map_of (rooms_coll store_fav) ''room1'' = Some d \<and> owner d \<noteq> Some (uid ravi))"
    using h3 h4 by simp
  have b: "map_of (rooms_coll store_fav) ''gone'' = None
       \<or> (\<exists>d. map_of (rooms_coll store_fav) ''gone'' = Some d \<and> owner d \<noteq> Some (uid ravi))"
    using h5 by simp
  from foreign_or_missing_room_untouched [OF h1 h2 a, of retitle]
       foreign_or_missing_room_untouched [OF h1 h2 b, of retitle] h1 h2 h3 h4 h5
  show ?thesis by simp
qed

text \<open>
  C10, as stated, fails: the list is not always the favourited rooms that still exist.
  Ravi's favourites are room1, a room that is gone, and room2; rooms 1 and 2 exist. The
  favourites query is answered and the lookup of room1 is not: the \<^verbatim>\<open>catch\<close> in the loop
  skips room1 as it skips the missing room, and the call returns room2 alone.
\<close>

theorem favorites_failed_lookup_counterexample:
  "currentUser (store_fav\<lparr>outages := [False, True]\<rparr>) = Some ravi
   \<and> map fav_roomId (user_favorites (uid ravi) (store_fav\<lparr>outages := [False, True]\<rparr>))
       = [''room1'', ''gone'', ''room2'']
   \<and> map_of (rooms_coll (store_fav\<lparr>outages := [False, True]\<rparr>)) ''room1'' = Some loft
   \<and> map_of (rooms_coll (store_fav\<lparr>outages := [False, True]\<rparr>)) ''gone'' = None
   \<and> map_of (rooms_coll (store_fav\<lparr>outages := [False, True]\<rparr>)) ''room2''
       = Some (loft\<lparr>title := ''Annex''\<rparr>)
   \<and> fst (getFavorites (store_fav\<lparr>outages := [False, True]\<rparr>))
       = Inr [loft\<lparr>room_id := Some ''room2'', title := ''Annex''\<rparr>]
   \<and> fst (getFavorites (store_fav\<lparr>outages := [False, True]\<rparr>))
       \<noteq> Inr [loft\<lparr>room_id := Some ''room1''\<rparr>,
              loft\<lparr>room_id := Some ''room2'', title := ''Annex''\<rparr>]"
proof -
  let ?s = "store_fav\<lparr>outages := [False, True]\<rparr>"
  have h1: "currentUser ?s = Some ravi" by (simp add: store_fav_def)
  have h2: "reachable 1 ?s" by (simp add: reachable_def)
  have favs: "map fav_roomId (user_favorites (uid ravi) ?s) = [''room1'', ''gone'', ''room2'']"
    by (simp add: user_favorites_def store_fav_def ravi_def favorite_of_def)
  have r1: "map_of (rooms_coll ?s) ''room1'' = Some loft" by (simp add: store_fav_def)
  have r0: "map_of (rooms_coll ?s) ''gone'' = None" by (simp add: store_fav_def)
  have r2: "map_of (rooms_coll ?s) ''room2'' = Some (loft\<lparr>title := ''Annex''\<rparr>)"
    by (simp add: store_fav_def)
  have none: "room_id loft = None" by (simp add: loft_def)
  have got: "fst (getFavorites ?s) = Inr [loft\<lparr>room_id := Some ''room2'', title := ''Annex''\<rparr>]"
    unfolding getFavorites_lookups [OF h1 h2] favs
    by (simp add: room_of_def store_fav_def patched_opt_def none)
  have ne: "fst (getFavorites ?s)
       \<noteq> Inr [loft\<lparr>room_id := Some ''room1''\<rparr>,
              loft\<lparr>room_id := Some ''room2'', title := ''Annex''\<rparr>]"
    unfolding got by simp
  show ?thesis by (intro conjI h1 favs r1 r0 r2 got ne)
qed

text \<open>
  C10, amended. For a signed-in user whose favourites query is answered, \<^verbatim>\<open>getFavorites\<close>
  returns a list and never fails on a favourite: the list holds, in the order of the
  favourite documents, the room of every favourite whose lookup was answered and found a
  room; a favourite whose room is missing and a favourite whose lookup failed are both
  skipped. When every lookup is answered, the list is exactly the favourited rooms that
  still exist, in that order.
\<close>

theorem favorites_skip_missing_rooms:
  assumes "currentUser s = Some u" "reachable 1 s"
  shows "fst (getFavorites s)
       = Inr (concat (map (\<lambda>(k, down). if down then [] else room_of s k)
                (lookups (tl (outages s)) (map fav_roomId (user_favorites (uid u) s)))))
       \<and> (reachable (Suc (length (user_favorites (uid u) s))) s \<longrightarrow>
            fst (getFavorites s) =
              Inr (concat (map (\<lambda>f. case map_of (rooms_coll s) (fav_roomId f) of
                                      None \<Rightarrow> []
                                    | Some d \<Rightarrow> [d\<lparr>room_id := patched_opt (room_id d) (Some (fav_roomId f))\<rparr>])
                             (user_favorites (uid u) s))))"
proof -
  let ?ids = "map fav_roomId (user_favorites (uid u) s)"
  note g = getFavorites_lookups [OF assms]
  have "fst (getFavorites s) =
          Inr (concat (map (\<lambda>f. case map_of (rooms_coll s) (fav_roomId f) of
                                      None \<Rightarrow> []
                                    | Some d \<Rightarrow> [d\<lparr>room_id := patched_opt (room_id d) (Some (fav_roomId f))\<rparr>])
                             (user_favorites (uid u) s)))"
    if "reachable (Suc (length (user_favorites (uid u) s))) s"
  proof -
    from that have "True \<notin> set (take (length ?ids) (tl (outages s)))"
      by (cases "outages s") (simp_all add: reachable_def)
    from lookups_all_up [OF this] show ?thesis
      unfolding g by (simp add: comp_def room_of_def)
  qed
  with g show ?thesis by blast
qed

theorem favorites_skip_missing_rooms_witness:
  "currentUser store_fav = Some ravi \<and> reachable 1 store_fav
   \<and> reachable (Suc (length (user_favorites (uid ravi) store_fav))) store_fav
   \<and> map fav_roomId (user_favorites (uid ravi) store_fav) = [''room1'', ''gone'', ''room2'']
   \<and> fst (getFavorites store_fav)
       = Inr [loft\<lparr>room_id := Some ''room1''\<rparr>, loft\<lparr>room_id := Some ''room2'', title := ''Annex''\<rparr>]
   \<and> currentUser (store_fav\<lparr>outages := [False, False, False, True]\<rparr>) = Some ravi
   \<and> reachable 1 (store_fav\<lparr>outages := [False, False, False, True]\<rparr>)
   \<and> fst (getFavorites (store_fav\<lparr>outages := [False, False, False, True]\<rparr>))
       = Inr [loft\<lparr>room_id := Some ''room1''\<rparr>]"
proof -
  let ?t = "store_fav\<lparr>outages := [False, False, False, True]\<rparr>"
  have h1: "currentUser store_fav = Some ravi" by (simp add: store_fav_def)
  have h2: "reachable 1 store_fav" by (simp add: reachable_def store_fav_def store0_def)
  have favs: "user_favorites (uid ravi) store_fav
      = [snd (favorite_of ''ravi'' ''room1''), snd (favorite_of ''ravi'' ''gone''),
         snd (favorite_of ''ravi'' ''room2'')]"
    by (simp add: user_favorites_def store_fav_def ravi_def favorite_of_def)
  have ids: "map fav_roomId (user_favorites (uid ravi) store_fav) = [''room1'', ''gone'', ''room2'']"
    by (simp add: favs favorite_of_def)
  have h3: "reachable (Suc (length (user_favorites (uid ravi) store_fav))) store_fav"
    by (simp add: reachable_def store_fav_def store0_def)
  have rooms: "rooms_coll store_fav = [(''room1'', loft), (''room2'', loft\<lparr>title := ''Annex''\<rparr>)]"
    by (simp add: store_fav_def)
  have none: "room_id loft = None" by (simp add: loft_def)
  from favorites_skip_missing_rooms [OF h1 h2] h3
  have "fst (getFavorites store_fav) =
          Inr (concat (map (\<lambda>f. case map_of (rooms_coll store_fav) (fav_roomId f) of
                                  None \<Rightarrow> []
                                | Some d \<Rightarrow> [d\<lparr>room_id := patched_opt (room_id d) (Some (fav_roomId f))\<rparr>])
                         (user_favorites (uid ravi) store_fav)))"
    by blast
  then have all: "fst (getFavorites store_fav)
       = Inr [loft\<lparr>room_id := Some ''room1''\<rparr>, loft\<lparr>room_id := Some ''room2'', title := ''Annex''\<rparr>]"
    unfolding favs rooms by (simp add: favorite_of_def patched_opt_def none)
  have k1: "currentUser ?t = Some ravi" by (simp add: store_fav_def)
  have k2: "reachable 1 ?t" by (simp add: reachable_def)
  have idt: "map fav_roomId (user_favorites (uid ravi) ?t) = [''room1'', ''gone'', ''room2'']"
    by (simp add: user_favorites_def store_fav_def ravi_def favorite_of_def)
  have rt: "rooms_coll ?t = [(''room1'', loft), (''room2'', loft\<lparr>title := ''Annex''\<rparr>)]"
    by (simp add: store_fav_def)
  from favorites_skip_missing_rooms [OF k1 k2]
  have "fst (getFavorites ?t)
       = Inr (concat (map (\<lambda>(k, down). if down then [] else room_of ?t k)
                (lookups (tl (outages ?t)) (map fav_roomId (user_favorites (uid ravi) ?t)))))"
    by blast
  then have part: "fst (getFavorites ?t) = Inr [loft\<lparr>room_id := Some ''room1''\<rparr>]"
    unfolding idt by (simp add: room_of_def store_fav_def patched_opt_def none)
  show ?thesis by (intro conjI h1 h2 h3 ids all k1 k2 part)
qed

end
